theory Spec2Isabelle
  imports Complex_Main "HOL-Library.Multiset" "HOL-Library.Sublist" "HOL-Library.Log_Nat"
begin

section \<open>Monitor Mate: the report aggregation and rendering engine\<close>

text \<open>
  A shallow embedding of \<^verbatim>\<open>src/services/PDFReportService.js\<close>. Every static method
  of \<^verbatim>\<open>PDFReportService\<close> that the properties below are about is a HOL function of the
  same name, over the data the JavaScript receives.

  Conventions of the embedding:
  \<^item> a property that may be \<^verbatim>\<open>undefined\<close> is an \<open>option\<close>; \<open>None\<close> is \<^verbatim>\<open>undefined\<close>;
  \<^item> \<^verbatim>\<open>a || b\<close> takes \<open>b\<close> when \<open>a\<close> is falsy: \<^verbatim>\<open>undefined\<close>, the empty string, or
    the number 0; an object or an array (also an empty one) is truthy;
  \<^item> counts are \<open>nat\<close>, the lengths of arrays; byte counts and risk scores are \<open>int\<close>, the
    integers a Number holds;
  \<^item> a Number is a binary64 value, and an arithmetic operation gives the exact rational
    result rounded by \<open>fl\<close> below, as IEEE 754 prescribes: so a sum of byte counts is
    \<open>js_add\<close>, exact up to \<open>2 ^ 53\<close> and rounded beyond;
  \<^item> \<^verbatim>\<open>Math.log\<close> is the one operation whose result the language leaves to the engine
    (an approximation of the natural logarithm). It is the parameter \<open>Math_log\<close> of every
    function that formats a byte count: the binary64 value the engine returns at a
    positive integer;
  \<^item> a string is the list of the bytes of its UTF-8 encoding;
  \<^item> a \<^verbatim>\<open>throw\<close> is the \<open>Inl\<close> of a sum.
\<close>

text \<open>
  What is thrown: the errors of the language and of the storage, the \<^verbatim>\<open>Error\<close> of
  \<^verbatim>\<open>generateReport\<close> about the storage permission, and the \<^verbatim>\<open>Error\<close> into which the
  \<^verbatim>\<open>catch\<close> of \<^verbatim>\<open>generateReport\<close> wraps whatever was thrown
  (\<^verbatim>\<open>PDF generation failed: ...\<close> followed by its message).
\<close>

datatype js_error =
  TypeError | SyntaxError | StorageError | ExportError | PermissionRequired | GenerationFailed js_error

subsection \<open>Operators of the language\<close>

text \<open>\<^verbatim>\<open>a || d\<close> on a string that may be missing, and \<^verbatim>\<open>String(a)\<close> as a template prints it.\<close>

definition truthy :: "string option \<Rightarrow> bool" where
  "truthy v = (case v of None \<Rightarrow> False | Some s \<Rightarrow> s \<noteq> [])"

definition or_str :: "string option \<Rightarrow> string \<Rightarrow> string" where
  "or_str v d = (case v of None \<Rightarrow> d | Some s \<Rightarrow> if s = [] then d else s)"

definition str_of :: "string option \<Rightarrow> string" where
  "str_of v = (case v of None \<Rightarrow> ''undefined'' | Some s \<Rightarrow> s)"

text \<open>\<^verbatim>\<open>n || 0\<close> on a number that may be missing, and \<^verbatim>\<open>xs || []\<close> on an array.\<close>

definition or_zero :: "int option \<Rightarrow> int" where
  "or_zero v = (case v of None \<Rightarrow> 0 | Some n \<Rightarrow> n)"

definition or_empty :: "'a list option \<Rightarrow> 'a list" where
  "or_empty v = (case v of None \<Rightarrow> [] | Some xs \<Rightarrow> xs)"

text \<open>
  \<^verbatim>\<open>[...new Set(xs)]\<close>: a Set keeps each value once, in the order of first insertion.
  \<^verbatim>\<open>if (!ys.includes(x)) ys.push(x)\<close> is the same step on an array.
\<close>

definition push_new :: "'a list \<Rightarrow> 'a \<Rightarrow> 'a list" where
  "push_new ys x = (if x \<in> set ys then ys else ys @ [x])"

definition unique :: "'a list \<Rightarrow> 'a list" where
  "unique xs = foldl push_new [] xs"

text \<open>
  \<^verbatim>\<open>xs.sort(cmp)\<close>. ECMAScript requires the sort to be stable, and for a comparator that
  is a consistent ordering the sorted stable permutation is unique; insertion from the
  right computes it.
\<close>

fun insert_sorted :: "('a \<Rightarrow> 'a \<Rightarrow> int) \<Rightarrow> 'a \<Rightarrow> 'a list \<Rightarrow> 'a list" where
  "insert_sorted cmp x [] = [x]"
| "insert_sorted cmp x (y # ys) =
     (if cmp x y \<le> 0 then x # y # ys else y # insert_sorted cmp x ys)"

definition Array_sort :: "('a \<Rightarrow> 'a \<Rightarrow> int) \<Rightarrow> 'a list \<Rightarrow> 'a list" where
  "Array_sort cmp xs = foldr (insert_sorted cmp) xs []"

text \<open>\<^verbatim>\<open>s.replace(pat, rep)\<close> with a string pattern: the first occurrence only.\<close>

fun replace_first :: "string \<Rightarrow> string \<Rightarrow> string \<Rightarrow> string" where
  "replace_first pat rep [] = (if pat = [] then rep else [])"
| "replace_first pat rep (c # cs) =
     (if take (length pat) (c # cs) = pat then rep @ drop (length pat) (c # cs)
      else c # replace_first pat rep cs)"

subsection \<open>Numbers\<close>

text \<open>
  Binary64 rounding of a rational in the normal range: 53 significant bits, to nearest,
  ties to even. \<open>binade x\<close> is the exponent \<open>e\<close> with \<open>2 ^ e \<le> x < 2 ^ (e + 1)\<close>.
\<close>

definition pow2 :: "int \<Rightarrow> rat" where
  "pow2 e = (if 0 \<le> e then 2 ^ nat e else 1 / 2 ^ nat (- e))"

definition binade :: "rat \<Rightarrow> int" where
  "binade x = (let (p, q) = quotient_of x; e0 = bitlen p - bitlen q
               in if pow2 e0 \<le> x then e0 else e0 - 1)"

definition round_ties_even :: "rat \<Rightarrow> int" where
  "round_ties_even x = (let f = \<lfloor>x\<rfloor>; d = x - of_int f in
     if d < 1 / 2 then f else if 1 / 2 < d then f + 1 else if even f then f else f + 1)"

definition fl :: "rat \<Rightarrow> rat" where
  "fl x = (if x = 0 then 0 else
     let e = binade \<bar>x\<bar> - 52 in of_int (round_ties_even (x / pow2 e)) * pow2 e)"

text \<open>\<^verbatim>\<open>Math.round\<close>: the nearest integer, a tie going up.\<close>

definition Math_round :: "rat \<Rightarrow> int" where
  "Math_round x = \<lfloor>x + 1 / 2\<rfloor>"

text \<open>
  \<^verbatim>\<open>a + b\<close> on two Numbers that hold integers: the exact sum, rounded. The rounded sum is
  an integer again.
\<close>

definition js_add :: "int \<Rightarrow> int \<Rightarrow> int" where
  "js_add a b = \<lfloor>fl (of_int a + of_int b)\<rfloor>"

text \<open>Decimal digits of a count, as a template prints a Number that is an integer.\<close>

definition digit :: "nat \<Rightarrow> char" where
  "digit d = ''0123456789'' ! (d mod 10)"

function show_nat :: "nat \<Rightarrow> string" where
  "show_nat n = (if n < 10 then [digit n] else show_nat (n div 10) @ [digit (n mod 10)])"
  by pat_completeness auto
termination
  by (relation "measure id") auto

declare show_nat.simps [simp del]

definition show_int :: "int \<Rightarrow> string" where
  "show_int i = (if i < 0 then ''-'' @ show_nat (nat (- i)) else show_nat (nat i))"

text \<open>
  A Number \<open>m / 100\<close> with \<open>m\<close> a non-negative integer below \<open>10 ^ 15\<close> prints as its
  shortest decimal: the integer part, then at most two decimals, trailing zeros dropped.
\<close>

definition show_hundredths :: "int \<Rightarrow> string" where
  "show_hundredths m = (let ip = nat (m div 100); fr = nat (m mod 100) in
     show_nat ip @
     (if fr = 0 then [] else if fr mod 10 = 0 then ''.'' @ [digit (fr div 10)]
      else ''.'' @ [digit (fr div 10), digit (fr mod 10)]))"

subsection \<open>Byte Formatter\<close>

definition sizes :: "string list" where
  "sizes = [''Bytes'', ''KB'', ''MB'', ''GB'', ''TB'']"

text \<open>
  \<^verbatim>\<open>const i = Math.floor(Math.log(bytes) / Math.log(k))\<close> with \<open>k = 1024\<close>: the floor of
  the binary64 quotient of the two logarithms the engine returns, for a positive count.
  The logarithm of 1024 is taken not to be 0.
\<close>

definition log_exponent :: "(int \<Rightarrow> rat) \<Rightarrow> int \<Rightarrow> int" where
  "log_exponent Math_log bytes = \<lfloor>fl (Math_log bytes / Math_log 1024)\<rfloor>"

text \<open>
  \<^verbatim>\<open>Math.round((bytes / Math.pow(k, i)) * 100) / 100 + ' ' + sizes[i]\<close>. The power
  \<open>1024 ^ i\<close> is \<open>2 ^ (10 * i)\<close>, exact; \<^verbatim>\<open>sizes[i]\<close> outside the array is
  \<^verbatim>\<open>undefined\<close> and prints so.
\<close>

definition in_unit :: "int \<Rightarrow> int \<Rightarrow> string" where
  "in_unit bytes i =
     show_hundredths (Math_round (fl (fl (of_int bytes / pow2 (10 * i)) * 100))) @ '' '' @
     (if 0 \<le> i \<and> i < int (length sizes) then sizes ! nat i else ''undefined'')"

text \<open>
  \<^verbatim>\<open>formatBytes\<close>. A negative count makes \<^verbatim>\<open>Math.log\<close> return \<^verbatim>\<open>NaN\<close>, which every
  later step keeps.
\<close>

definition formatBytes :: "(int \<Rightarrow> rat) \<Rightarrow> int \<Rightarrow> string" where
  "formatBytes Math_log bytes =
     (if bytes = 0 then ''0 Bytes''
      else if bytes < 0 then ''NaN undefined''
      else in_unit bytes (log_exponent Math_log bytes))"

subsection \<open>AppRecord\<close>

record risk_factor =
  permission :: "string option"
  level :: "string option"

record risk_analysis =
  riskLevel :: "string option"
  riskScore :: "int option"
  highRiskCount :: "int option"
  riskFactors :: "risk_factor list option"

record data_usage =
  total_bytes :: "int option"
  wifi :: "int option"
  mobile :: "int option"

record app =
  name :: "string option"
  appName :: "string option"
  packageName :: "string option"
  category :: "string option"
  permissions :: "string list option"
  riskAnalysis :: "risk_analysis option"
  dataUsage :: "data_usage option"

text \<open>\<^verbatim>\<open>app.riskAnalysis?.riskLevel\<close>: \<^verbatim>\<open>undefined\<close> when there is no analysis.\<close>

definition app_riskLevel :: "app \<Rightarrow> string option" where
  "app_riskLevel a = (case riskAnalysis a of None \<Rightarrow> None | Some ra \<Rightarrow> riskLevel ra)"

subsection \<open>Risk Categorizer\<close>

record risk_categories =
  cat_highRisk :: "app list"
  cat_mediumRisk :: "app list"
  cat_lowRisk :: "app list"
  cat_noRisk :: "app list"

text \<open>
  \<^verbatim>\<open>categorizeByRisk\<close>: four independent \<^verbatim>\<open>filter\<close> calls. The last one keeps an app
  when \<^verbatim>\<open>!app.riskAnalysis || app.riskAnalysis.riskLevel === 'NO_RISK'\<close>.
\<close>

definition categorizeByRisk :: "app list \<Rightarrow> risk_categories" where
  "categorizeByRisk apps = \<lparr>
     cat_highRisk = filter (\<lambda>a. app_riskLevel a = Some ''HIGH_RISK'') apps,
     cat_mediumRisk = filter (\<lambda>a. app_riskLevel a = Some ''MEDIUM_RISK'') apps,
     cat_lowRisk = filter (\<lambda>a. app_riskLevel a = Some ''LOW_RISK'') apps,
     cat_noRisk = filter (\<lambda>a. case riskAnalysis a of None \<Rightarrow> True
                                  | Some ra \<Rightarrow> riskLevel ra = Some ''NO_RISK'') apps \<rparr>"

subsection \<open>Statistics Aggregator\<close>

record statistics =
  totalApps :: nat
  highRisk :: nat
  mediumRisk :: nat
  lowRisk :: nat
  noRisk :: nat
  riskPercentage :: int
  averagePermissions :: int
  totalDataUsage :: string

text \<open>The \<^verbatim>\<open>let\<close> variables that the \<^verbatim>\<open>forEach\<close> of \<^verbatim>\<open>calculateStatistics\<close> updates.\<close>

record counters =
  n_high :: nat
  n_medium :: nat
  n_low :: nat
  n_none :: nat
  n_permissions :: nat
  n_bytes :: int

text \<open>\<^verbatim>\<open>app.dataUsage?.total\<close>.\<close>

definition app_total :: "app \<Rightarrow> int option" where
  "app_total a = (case dataUsage a of None \<Rightarrow> None | Some d \<Rightarrow> total_bytes d)"

text \<open>One turn of the loop: the \<^verbatim>\<open>switch\<close> with its \<^verbatim>\<open>default\<close>, then the two sums.\<close>

definition count_app :: "counters \<Rightarrow> app \<Rightarrow> counters" where
  "count_app c a =
     (let l = or_str (app_riskLevel a) ''NO_RISK'';
          c1 = (if l = ''HIGH_RISK'' then c\<lparr>n_high := n_high c + 1\<rparr>
                else if l = ''MEDIUM_RISK'' then c\<lparr>n_medium := n_medium c + 1\<rparr>
                else if l = ''LOW_RISK'' then c\<lparr>n_low := n_low c + 1\<rparr>
                else c\<lparr>n_none := n_none c + 1\<rparr>)
      in c1\<lparr>n_permissions := n_permissions c1 + length (unique (or_empty (permissions a))),
             n_bytes := js_add (n_bytes c1) (or_zero (app_total a))\<rparr>)"

definition counters0 :: counters where
  "counters0 = \<lparr>n_high = 0, n_medium = 0, n_low = 0, n_none = 0, n_permissions = 0, n_bytes = 0\<rparr>"

definition calculateStatistics :: "(int \<Rightarrow> rat) \<Rightarrow> app list \<Rightarrow> statistics" where
  "calculateStatistics Math_log apps =
     (let n = length apps; c = foldl count_app counters0 apps in
      \<lparr>totalApps = n,
       highRisk = n_high c,
       mediumRisk = n_medium c,
       lowRisk = n_low c,
       noRisk = n_none c,
       riskPercentage =
         (if 0 < n then Math_round (fl (fl (of_nat (n_high c) / of_nat n) * 100)) else 0),
       averagePermissions =
         (if 0 < n then Math_round (fl (of_nat (n_permissions c) / of_nat n)) else 0),
       totalDataUsage = formatBytes Math_log (n_bytes c)\<rparr>)"

subsection \<open>Top-Risk Ranker\<close>

text \<open>
  \<^verbatim>\<open>x.riskAnalysis.riskScore || 0\<close>. The comparator runs after the filter, on apps that
  have an analysis.
\<close>

definition score :: "app \<Rightarrow> int" where
  "score a = (case riskAnalysis a of None \<Rightarrow> 0 | Some ra \<Rightarrow> or_zero (riskScore ra))"

text \<open>\<^verbatim>\<open>getTopRiskyApps(apps, limit = 10)\<close>; the limit is a count, \<open>None\<close> when left out.\<close>

definition getTopRiskyApps :: "app list \<Rightarrow> nat option \<Rightarrow> app list" where
  "getTopRiskyApps apps limit =
     take (case limit of None \<Rightarrow> 10 | Some n \<Rightarrow> n)
       (Array_sort (\<lambda>a b. score b - score a) (filter (\<lambda>a. riskAnalysis a \<noteq> None) apps))"

subsection \<open>Permission Analyzer\<close>

text \<open>
  \<^verbatim>\<open>permissionCount\<close> is an object used as a table: its own properties in the order of
  their creation. \<^verbatim>\<open>obj[k] = v\<close> keeps the place of a property that exists and creates a
  new one last.
\<close>

fun assign :: "('k \<times> 'v) list \<Rightarrow> 'k \<Rightarrow> 'v \<Rightarrow> ('k \<times> 'v) list" where
  "assign [] k v = [(k, v)]"
| "assign (p # ps) k v = (if fst p = k then (k, v) # ps else p # assign ps k v)"

text \<open>\<^verbatim>\<open>permissionCount[permission] = (permissionCount[permission] || 0) + 1\<close>.\<close>

definition count_permission :: "(string \<times> nat) list \<Rightarrow> string \<Rightarrow> (string \<times> nat) list" where
  "count_permission pc p = assign pc p ((case map_of pc p of None \<Rightarrow> 0 | Some c \<Rightarrow> c) + 1)"

text \<open>
  The names \<^verbatim>\<open>{}\<close> inherits from \<^verbatim>\<open>Object.prototype\<close>. Reading one of them from
  \<^verbatim>\<open>permissionCount\<close> yields a function, not \<^verbatim>\<open>undefined\<close>, and \<open>+ 1\<close> then builds a string:
  the table above models the counting of every other identifier.
\<close>

definition inherited_names :: "string list" where
  "inherited_names = [''constructor'', ''__defineGetter__'', ''__defineSetter__'',
     ''hasOwnProperty'', ''__lookupGetter__'', ''__lookupSetter__'', ''isPrototypeOf'',
     ''propertyIsEnumerable'', ''toString'', ''valueOf'', ''__proto__'', ''toLocaleString'']"

definition plain_permissions :: "app list \<Rightarrow> bool" where
  "plain_permissions apps =
     list_all (\<lambda>a. list_all (\<lambda>p. p \<notin> set inherited_names) (or_empty (permissions a))) apps"

text \<open>
  \<^verbatim>\<open>permissionByRisk\<close>, one array per level. \<^verbatim>\<open>permissionByRisk[riskLevel]\<close> is an array
  for the three keys only; for any other level \<^verbatim>\<open>.includes(...)\<close> is a call on
  \<^verbatim>\<open>undefined\<close> (or of \<^verbatim>\<open>undefined\<close>, for an inherited name) and throws a TypeError.
\<close>

record by_risk =
  HIGH :: "string option list"
  MEDIUM :: "string option list"
  LOW :: "string option list"

definition add_factor :: "by_risk \<Rightarrow> risk_factor \<Rightarrow> js_error + by_risk" where
  "add_factor r f =
     (if level f = Some ''HIGH'' then Inr (r\<lparr>HIGH := push_new (HIGH r) (permission f)\<rparr>)
      else if level f = Some ''MEDIUM'' then Inr (r\<lparr>MEDIUM := push_new (MEDIUM r) (permission f)\<rparr>)
      else if level f = Some ''LOW'' then Inr (r\<lparr>LOW := push_new (LOW r) (permission f)\<rparr>)
      else Inl TypeError)"

text \<open>\<^verbatim>\<open>xs.forEach(f)\<close> on a state, left at the first \<^verbatim>\<open>throw\<close>.\<close>

fun forEach :: "('s \<Rightarrow> 'a \<Rightarrow> js_error + 's) \<Rightarrow> 's \<Rightarrow> 'a list \<Rightarrow> js_error + 's" where
  "forEach f s [] = Inr s"
| "forEach f s (x # xs) = (case f s x of Inl e \<Rightarrow> Inl e | Inr s' \<Rightarrow> forEach f s' xs)"

text \<open>The body of the outer \<^verbatim>\<open>apps.forEach\<close>.\<close>

definition analyze_app ::
  "(string \<times> nat) list \<times> by_risk \<Rightarrow> app \<Rightarrow> js_error + (string \<times> nat) list \<times> by_risk" where
  "analyze_app st a =
     (let pc = foldl count_permission (fst st) (unique (or_empty (permissions a))) in
      case riskAnalysis a of
        None \<Rightarrow> Inr (pc, snd st)
      | Some ra \<Rightarrow>
          (case riskFactors ra of
             None \<Rightarrow> Inr (pc, snd st)
           | Some fs \<Rightarrow>
               (case forEach add_factor (snd st) fs of
                  Inl e \<Rightarrow> Inl e
                | Inr r \<Rightarrow> Inr (pc, r))))"

text \<open>
  \<^verbatim>\<open>Object.entries(obj)\<close> lists the own properties in the order of the language: the keys
  that are array indices (canonical decimal numerals below \<open>2 ^ 32 - 1 = 4294967295\<close>) first, in
  ascending numeric order, then the other strings in the order of their creation.
\<close>

definition is_digit :: "char \<Rightarrow> bool" where
  "is_digit c = (c \<in> set ''0123456789'')"

definition index_value :: "string \<Rightarrow> int" where
  "index_value s = foldl (\<lambda>n c. 10 * n + (of_char c - 48)) 0 s"

definition is_array_index :: "string \<Rightarrow> bool" where
  "is_array_index s =
     (s \<noteq> [] \<and> list_all is_digit s \<and> (s = ''0'' \<or> hd s \<noteq> CHR ''0'')
      \<and> index_value s < 4294967295)"

definition Object_entries :: "(string \<times> 'v) list \<Rightarrow> (string \<times> 'v) list" where
  "Object_entries obj =
     sort_key (\<lambda>e. index_value (fst e)) (filter (\<lambda>e. is_array_index (fst e)) obj)
     @ filter (\<lambda>e. \<not> is_array_index (fst e)) obj"

record permission_analysis =
  permissionCount :: "(string \<times> nat) list"
  mostCommon :: "(string \<times> nat) list"
  highRiskPermissions :: nat
  mediumRiskPermissions :: nat
  lowRiskPermissions :: nat

text \<open>
  \<^verbatim>\<open>analyzePermissions\<close>. An entry \<^verbatim>\<open>{permission, count}\<close> of \<^verbatim>\<open>mostCommon\<close> is the pair.
\<close>

definition analyzePermissions :: "app list \<Rightarrow> js_error + permission_analysis" where
  "analyzePermissions apps =
     (case forEach analyze_app ([], \<lparr>HIGH = [], MEDIUM = [], LOW = []\<rparr>) apps of
        Inl e \<Rightarrow> Inl e
      | Inr (pc, r) \<Rightarrow>
          Inr \<lparr>permissionCount = pc,
               mostCommon = take 10 (Array_sort (\<lambda>a b. int (snd b) - int (snd a)) (Object_entries pc)),
               highRiskPermissions = length (HIGH r),
               mediumRiskPermissions = length (MEDIUM r),
               lowRiskPermissions = length (LOW r)\<rparr>)"

subsection \<open>Data Usage Summarizer\<close>

record consumer =
  c_name :: string
  c_packageName :: "string option"
  c_total :: int
  c_wifi :: int
  c_mobile :: int

record data_usage_summary =
  totalWifi :: string
  totalMobile :: string
  totalCombined :: string
  topDataConsumers :: "consumer list"

text \<open>\<^verbatim>\<open>app.name || app.appName || d\<close>.\<close>

definition display_name :: "app \<Rightarrow> string \<Rightarrow> string" where
  "display_name a d = (if truthy (name a) then str_of (name a) else or_str (appName a) d)"

text \<open>
  The \<^verbatim>\<open>filter\<close> and the \<^verbatim>\<open>map\<close> of \<^verbatim>\<open>summarizeDataUsage\<close> on one app: \<open>None\<close> when
  the filter drops it (\<^verbatim>\<open>app.dataUsage && app.dataUsage.total > 0\<close> is false), else the
  descriptor.
\<close>

definition consumer_of :: "app \<Rightarrow> consumer option" where
  "consumer_of a =
     (case dataUsage a of
        None \<Rightarrow> None
      | Some d \<Rightarrow>
          (case total_bytes d of
             None \<Rightarrow> None
           | Some t \<Rightarrow>
               if 0 < t then
                 Some \<lparr>c_name = display_name a ''Unknown'', c_packageName = packageName a,
                       c_total = t, c_wifi = or_zero (wifi d), c_mobile = or_zero (mobile d)\<rparr>
               else None))"

text \<open>The second loop: \<^verbatim>\<open>totalWifi\<close> and \<^verbatim>\<open>totalMobile\<close>, over every app.\<close>

definition add_usage :: "int \<times> int \<Rightarrow> app \<Rightarrow> int \<times> int" where
  "add_usage t a =
     (case dataUsage a of
        None \<Rightarrow> t
      | Some d \<Rightarrow> (js_add (fst t) (or_zero (wifi d)), js_add (snd t) (or_zero (mobile d))))"

definition summarizeDataUsage :: "(int \<Rightarrow> rat) \<Rightarrow> app list \<Rightarrow> data_usage_summary" where
  "summarizeDataUsage Math_log apps =
     (let consumers = take 10 (Array_sort (\<lambda>a b. c_total b - c_total a) (List.map_filter consumer_of apps));
          t = foldl add_usage (0, 0) apps in
      \<lparr>totalWifi = formatBytes Math_log (fst t),
       totalMobile = formatBytes Math_log (snd t),
       totalCombined = formatBytes Math_log (js_add (fst t) (snd t)),
       topDataConsumers = consumers\<rparr>)"

subsection \<open>Report Model Builder\<close>

text \<open>
  The two blobs come from \<^verbatim>\<open>AsyncStorage.getItem\<close>: the promise rejects (\<open>Inl\<close>) or
  resolves to \<^verbatim>\<open>null\<close> (\<open>None\<close>) or to the stored text. \<^verbatim>\<open>JSON.parse\<close> belongs to the
  language, not to this program. Of its grammar the model fixes one rule: a JSON text is a
  value between optional white space, and a value starts with one of
  \<^verbatim>\<open>{ [ " - 0..9 t f n\<close>; any other text is a SyntaxError. The rest of the grammar is the
  parameter \<open>g\<close>.
\<close>

datatype json =
  JNull | JBool bool | JNumber rat | JString string | JArray "json list" | JObject "(string \<times> json) list"

definition is_ws :: "char \<Rightarrow> bool" where
  "is_ws c = (c \<in> set [CHR '' '', CHR 0x09, CHR 0x0A, CHR 0x0D])"

definition JSON_parse :: "(string \<Rightarrow> js_error + json) \<Rightarrow> string \<Rightarrow> js_error + json" where
  \<open>JSON_parse g s =
     (case dropWhile is_ws s of
        [] \<Rightarrow> Inl SyntaxError
      | c # _ \<Rightarrow> if c \<in> set ''{["-0123456789tfn'' then g s else Inl SyntaxError)\<close>

text \<open>\<^verbatim>\<open>data ? JSON.parse(data) : {}\<close>; \<^verbatim>\<open>null\<close> and the empty string are falsy.\<close>

definition parse_blob :: "(string \<Rightarrow> js_error + json) \<Rightarrow> string option \<Rightarrow> js_error + json" where
  "parse_blob g d = (if truthy d then JSON_parse g (str_of d) else Inr (JObject []))"

record device_info =
  platform :: string
  osVersion :: int

record report_data =
  generatedDate :: nat
  appVersion :: string
  deviceInfo :: device_info
  settings :: json
  stats :: statistics
  riskCategories :: risk_categories
  topRiskyApps :: "app list"
  permissionAnalysis :: permission_analysis
  dataUsageSummary :: data_usage_summary
  apps :: "app list"
  scanResults :: json

text \<open>
  \<^verbatim>\<open>prepareReportData\<close>, in the order of its statements. \<open>now\<close> is the clock and \<open>dev\<close> the
  platform; nothing is caught, so the first \<^verbatim>\<open>throw\<close> or rejection is the result.
\<close>

definition prepareReportData ::
  "(int \<Rightarrow> rat) \<Rightarrow> (string \<Rightarrow> js_error + json) \<Rightarrow> nat \<Rightarrow> device_info
   \<Rightarrow> js_error + string option \<Rightarrow> js_error + string option \<Rightarrow> app list
   \<Rightarrow> js_error + report_data" where
  "prepareReportData Math_log g now dev settingsItem scanItem as =
     (case settingsItem of Inl e \<Rightarrow> Inl e | Inr settingsData \<Rightarrow>
     (case scanItem of Inl e \<Rightarrow> Inl e | Inr scanData \<Rightarrow>
     (case parse_blob g settingsData of Inl e \<Rightarrow> Inl e | Inr st \<Rightarrow>
     (case parse_blob g scanData of Inl e \<Rightarrow> Inl e | Inr sc \<Rightarrow>
     (case analyzePermissions as of Inl e \<Rightarrow> Inl e | Inr pa \<Rightarrow>
        Inr \<lparr>generatedDate = now,
             appVersion = ''1.0.0'',
             deviceInfo = dev,
             settings = st,
             stats = calculateStatistics Math_log as,
             riskCategories = categorizeByRisk as,
             topRiskyApps = getTopRiskyApps as (Some 10),
             permissionAnalysis = pa,
             dataUsageSummary = summarizeDataUsage Math_log as,
             apps = as,
             scanResults = sc\<rparr>)))))"

subsection \<open>Document Renderer\<close>

text \<open>
  The sections of \<^verbatim>\<open>generateHTMLContent\<close> that list apps. Each function is one template
  literal of the source, its text copied with its line breaks and indentation, its
  \<^verbatim>\<open>${...}\<close> holes filled in order.
\<close>

text \<open>\<^verbatim>\<open>escapeHtml\<close>: the empty result for a missing or empty text, else every character
  through the table.\<close>

definition escape_char :: "char \<Rightarrow> string" where
  \<open>escape_char c =
     (if c = CHR ''&'' then ''&amp;''
      else if c = CHR ''<'' then ''&lt;''
      else if c = CHR ''>'' then ''&gt;''
      else if c = CHR 0x22 then ''&quot;''
      else if c = CHR 0x27 then ''&#039;''
      else [c])\<close>

definition escapeHtml :: "string option \<Rightarrow> string" where
  "escapeHtml text = (if truthy text then concat (map escape_char (str_of text)) else [])"

definition getRiskClass :: "string option \<Rightarrow> string" where
  "getRiskClass l =
     (if l = Some ''HIGH_RISK'' then ''risk-high''
      else if l = Some ''MEDIUM_RISK'' then ''risk-medium''
      else if l = Some ''LOW_RISK'' then ''risk-low''
      else ''risk-none'')"

text \<open>\<^verbatim>\<open>app.riskAnalysis?.riskScore\<close> and \<^verbatim>\<open>app.riskAnalysis?.highRiskCount\<close>.\<close>

definition app_riskScore :: "app \<Rightarrow> int option" where
  "app_riskScore a = (case riskAnalysis a of None \<Rightarrow> None | Some ra \<Rightarrow> riskScore ra)"

definition app_highRiskCount :: "app \<Rightarrow> int option" where
  "app_highRiskCount a = (case riskAnalysis a of None \<Rightarrow> None | Some ra \<Rightarrow> highRiskCount ra)"

text \<open>\<^verbatim>\<open>riskLevel?.replace('_RISK', '').replace('_', ' ') || 'SAFE'\<close>.\<close>

definition risk_label :: "string option \<Rightarrow> string" where
  "risk_label l =
     (case l of
        None \<Rightarrow> ''SAFE''
      | Some s \<Rightarrow> or_str (Some (replace_first ''_'' '' '' (replace_first ''_RISK'' [] s))) ''SAFE'')"

text \<open>\<^verbatim>\<open>xs.map((x, index) => f)\<close>.\<close>

definition map_index :: "(nat \<Rightarrow> 'a \<Rightarrow> 'b) \<Rightarrow> 'a list \<Rightarrow> 'b list" where
  "map_index f xs = map (\<lambda>(i, x). f i x) (zip [0..<length xs] xs)"

text \<open>The card of one app in the section of the top priority apps (lines 719 to 754).\<close>

definition priorityCard :: "(int \<Rightarrow> rat) \<Rightarrow> nat \<Rightarrow> app \<Rightarrow> string" where
  \<open>priorityCard Math_log index a = concat [
        ''\<newline>''
        @ ''                <div class="app-detail">\<newline>''
        @ ''                    <div class="app-header">\<newline>''
        @ ''                        <div>\<newline>''
        @ ''                            <div class="app-name">'',
        show_nat (index + 1),
        ''. '',
        display_name a ''Unknown App'',
        ''</div>\<newline>''
        @ ''                            <div class="app-package">'',
        str_of (packageName a),
        ''</div>\<newline>''
        @ ''                        </div>\<newline>''
        @ ''                        <span class="risk-badge '',
        getRiskClass (app_riskLevel a),
        ''">\<newline>''
        @ ''                            '',
        or_str (app_riskLevel a) ''UNKNOWN'',
        ''\<newline>''
        @ ''                        </span>\<newline>''
        @ ''                    </div>\<newline>''
        @ ''                    \<newline>''
        @ ''                    <div class="info-grid">\<newline>''
        @ ''                        <div class="info-item">\<newline>''
        @ ''                            <div class="info-label">Risk Score</div>\<newline>''
        @ ''                            <div class="info-value">'',
        show_int (or_zero (app_riskScore a)),
        ''</div>\<newline>''
        @ ''                        </div>\<newline>''
        @ ''                        <div class="info-item">\<newline>''
        @ ''                            <div class="info-label">Permissions</div>\<newline>''
        @ ''                            <div class="info-value">'',
        show_nat (length (unique (or_empty (permissions a)))),
        ''</div>\<newline>''
        @ ''                        </div>\<newline>''
        @ ''                        <div class="info-item">\<newline>''
        @ ''                            <div class="info-label">High Risk Permissions</div>\<newline>''
        @ ''                            <div class="info-value">'',
        show_int (or_zero (app_highRiskCount a)),
        ''</div>\<newline>''
        @ ''                        </div>\<newline>''
        @ ''                        <div class="info-item">\<newline>''
        @ ''                            <div class="info-label">Data Usage</div>\<newline>''
        @ ''                            <div class="info-value">'',
        formatBytes Math_log (or_zero (app_total a)),
        ''</div>\<newline>''
        @ ''                        </div>\<newline>''
        @ ''                    </div>\<newline>''
        @ ''                    \<newline>''
        @ ''                    <p style="font-size: 9pt; color: #666; margin-top: 10px; font-style: italic;">\<newline>''
        @ ''                        See detailed permission analysis in individual app pages below.\<newline>''
        @ ''                    </p>\<newline>''
        @ ''                </div>\<newline>''
        @ ''            '']\<close>

text \<open>The page of the top priority apps, left out when there is none (lines 713 to 757).\<close>

definition highPriorityPage :: "(int \<Rightarrow> rat) \<Rightarrow> app list \<Rightarrow> string" where
  \<open>highPriorityPage Math_log ranked = (if 0 < length ranked then concat [
        ''\<newline>''
        @ ''    <div class="page">\<newline>''
        @ ''        <div class="section">\<newline>''
        @ ''            <div class="section-title">''
        @ [CHR 0xE2, CHR 0x9A, CHR 0xA0]
        @ [CHR 0xEF, CHR 0xB8, CHR 0x8F]
        @ '' High Priority Apps</div>\<newline>''
        @ ''            <p style="margin-bottom: 20px;">These apps have the highest security risk scores and should be reviewed carefully.</p>\<newline>''
        @ ''            \<newline>''
        @ ''            '',
        concat (map_index (priorityCard Math_log) (take 5 ranked)),
        ''\<newline>''
        @ ''        </div>\<newline>''
        @ ''    </div>\<newline>''
        @ ''    ''] else [])\<close>

text \<open>A row of the table of the top data consumers (lines 795 to 805).\<close>

definition consumerRow :: "(int \<Rightarrow> rat) \<Rightarrow> consumer \<Rightarrow> string" where
  \<open>consumerRow Math_log c = concat [
        ''\<newline>''
        @ ''                            <tr>\<newline>''
        @ ''                                <td>\<newline>''
        @ ''                                    <strong>'',
        c_name c,
        ''</strong><br>\<newline>''
        @ ''                                    <small style="color: #666; font-family: monospace;">'',
        str_of (c_packageName c),
        ''</small>\<newline>''
        @ ''                                </td>\<newline>''
        @ ''                                <td><strong>'',
        formatBytes Math_log (c_total c),
        ''</strong></td>\<newline>''
        @ ''                                <td>'',
        formatBytes Math_log (c_wifi c),
        ''</td>\<newline>''
        @ ''                                <td>'',
        formatBytes Math_log (c_mobile c),
        ''</td>\<newline>''
        @ ''                            </tr>\<newline>''
        @ ''                        '']\<close>

text \<open>The table of the top data consumers, or the note that replaces it (lines 783 to 808).\<close>

definition dataConsumersTable :: "(int \<Rightarrow> rat) \<Rightarrow> consumer list \<Rightarrow> string" where
  \<open>dataConsumersTable Math_log cs = (if 0 < length cs then concat [
        ''\<newline>''
        @ ''                <div class="subsection-title">Top Data Consumers</div>\<newline>''
        @ ''                <table class="table">\<newline>''
        @ ''                    <thead>\<newline>''
        @ ''                        <tr>\<newline>''
        @ ''                            <th>App Name</th>\<newline>''
        @ ''                            <th>Total Usage</th>\<newline>''
        @ ''                            <th>WiFi</th>\<newline>''
        @ ''                            <th>Mobile</th>\<newline>''
        @ ''                        </tr>\<newline>''
        @ ''                    </thead>\<newline>''
        @ ''                    <tbody>\<newline>''
        @ ''                        '',
        concat (map (consumerRow Math_log) cs),
        ''\<newline>''
        @ ''                    </tbody>\<newline>''
        @ ''                </table>\<newline>''
        @ ''            ''] else ''<p>No data usage information available.</p>'')\<close>

text \<open>A row of the inventory (lines 829 to 844).\<close>

definition inventoryRow :: "nat \<Rightarrow> app \<Rightarrow> string" where
  \<open>inventoryRow index a = concat [
        ''\<newline>''
        @ ''                        <tr>\<newline>''
        @ ''                            <td>'',
        show_nat (index + 1),
        ''</td>\<newline>''
        @ ''                            <td>\<newline>''
        @ ''                                <strong>'',
        escapeHtml (Some (display_name a ''Unknown'')),
        ''</strong><br>\<newline>''
        @ ''                                <small style="color: #666; font-size: 8pt;">'',
        escapeHtml (packageName a),
        ''</small>\<newline>''
        @ ''                            </td>\<newline>''
        @ ''                            <td>'',
        or_str (category a) ''Other'',
        ''</td>\<newline>''
        @ ''                            <td>\<newline>''
        @ ''                                <span class="risk-badge '',
        getRiskClass (app_riskLevel a),
        ''">\<newline>''
        @ ''                                    '',
        risk_label (app_riskLevel a),
        ''\<newline>''
        @ ''                                </span>\<newline>''
        @ ''                            </td>\<newline>''
        @ ''                            <td><strong>'',
        show_nat (length (unique (or_empty (permissions a)))),
        ''</strong></td>\<newline>''
        @ ''                        </tr>\<newline>''
        @ ''                    '']\<close>

text \<open>The row that closes the inventory when it is cut, for \<open>n\<close> apps (lines 845 to 851).\<close>

definition inventoryTrailer :: "nat \<Rightarrow> string" where
  \<open>inventoryTrailer n = (if 30 < n then concat [
        ''\<newline>''
        @ ''                        <tr>\<newline>''
        @ ''                            <td colspan="5" style="text-align: center; font-style: italic; color: #666;">\<newline>''
        @ ''                                ... and '',
        show_nat (n - 30),
        '' more apps\<newline>''
        @ ''                            </td>\<newline>''
        @ ''                        </tr>\<newline>''
        @ ''                    ''] else [])\<close>

text \<open>The rows of the inventory: \<^verbatim>\<open>apps.slice(0, 30).map(...)\<close>, before \<^verbatim>\<open>join('')\<close>.\<close>

definition inventoryRows :: "app list \<Rightarrow> string list" where
  "inventoryRows as = map_index inventoryRow (take 30 as)"

text \<open>The body of the table of the inventory: the rows joined, then the trailer.\<close>

definition inventoryBody :: "app list \<Rightarrow> string" where
  \<open>inventoryBody as = concat (inventoryRows as) @ ''\<newline>                    '' @ inventoryTrailer (length as)\<close>

text \<open>
  \<^verbatim>\<open>generateHTMLContent\<close> is one template literal. The three sections above stand in it
  in this order; the text around them (styles, cover, overview, the heading of each
  section, detail pages, recommendations) is the parameter \<open>t\<close>, each part a function of
  the report data.
\<close>

record layout =
  before_priority :: "report_data \<Rightarrow> string"
  before_consumers :: "report_data \<Rightarrow> string"
  before_inventory :: "report_data \<Rightarrow> string"
  after_inventory :: "report_data \<Rightarrow> string"

definition generateHTMLContent :: "(int \<Rightarrow> rat) \<Rightarrow> layout \<Rightarrow> report_data \<Rightarrow> string" where
  "generateHTMLContent Math_log t data = concat [
     before_priority t data,
     highPriorityPage Math_log (topRiskyApps data),
     before_consumers t data,
     dataConsumersTable Math_log (topDataConsumers (dataUsageSummary data)),
     before_inventory t data,
     inventoryBody (apps data),
     after_inventory t data]"

subsection \<open>Report generation\<close>

text \<open>
  \<^verbatim>\<open>requestStoragePermission\<close>: granted off Android and from version 33 on; else the answer
  of the host, a failure of the request counting as a refusal.
\<close>

definition requestStoragePermission :: "device_info \<Rightarrow> js_error + bool \<Rightarrow> bool" where
  "requestStoragePermission dev answer =
     (if platform dev \<noteq> ''android'' then True
      else if 33 \<le> osVersion dev then True
      else (case answer of Inl e \<Rightarrow> False | Inr granted \<Rightarrow> granted))"

text \<open>
  \<^verbatim>\<open>generateReport\<close>. Writing the document (\<^verbatim>\<open>generatePDF\<close>, then the copy to the downloads
  folder) is the host's: the parameter \<open>export\<close>, from the markup to the file record or an
  error. Everything thrown inside the \<^verbatim>\<open>try\<close> is thrown again, wrapped.
\<close>

definition generateReport ::
  "(int \<Rightarrow> rat) \<Rightarrow> (string \<Rightarrow> js_error + json) \<Rightarrow> nat \<Rightarrow> device_info \<Rightarrow> js_error + bool
   \<Rightarrow> js_error + string option \<Rightarrow> js_error + string option \<Rightarrow> layout
   \<Rightarrow> (string \<Rightarrow> js_error + 'f) \<Rightarrow> app list \<Rightarrow> js_error + 'f" where
  "generateReport Math_log g now dev answer settingsItem scanItem t export as =
     (case
        (if \<not> requestStoragePermission dev answer \<and> platform dev = ''android'' \<and> osVersion dev < 33
         then Inl PermissionRequired
         else (case prepareReportData Math_log g now dev settingsItem scanItem as of
                 Inl e \<Rightarrow> Inl e
               | Inr data \<Rightarrow> export (generateHTMLContent Math_log t data)))
      of Inl e \<Rightarrow> Inl (GenerationFailed e) | Inr file \<Rightarrow> Inr file)"

subsection \<open>Notions of the statements\<close>

text \<open>The tier under which the Statistics Aggregator counts an app.\<close>

definition tier :: "app \<Rightarrow> string" where
  "tier a = or_str (app_riskLevel a) ''NO_RISK''"

text \<open>The risk factors the analyzer walks for one app, and the levels it can file.\<close>

definition app_factors :: "app \<Rightarrow> risk_factor list" where
  "app_factors a = (case riskAnalysis a of None \<Rightarrow> [] | Some ra \<Rightarrow> or_empty (riskFactors ra))"

definition known_level :: "risk_factor \<Rightarrow> bool" where
  "known_level f = (level f = Some ''HIGH'' \<or> level f = Some ''MEDIUM'' \<or> level f = Some ''LOW'')"



subsection \<open>Sample records\<close>

definition blank_app :: app where
  "blank_app = \<lparr>name = None, appName = None, packageName = None, category = None,
     permissions = None, riskAnalysis = None, dataUsage = None\<rparr>"

definition analysis :: "string option \<Rightarrow> int option \<Rightarrow> risk_analysis" where
  "analysis l s = \<lparr>riskLevel = l, riskScore = s, highRiskCount = None, riskFactors = None\<rparr>"

text \<open>An app whose analysis carries a score and no level.\<close>

definition unlabelled_app :: app where
  "unlabelled_app = blank_app\<lparr>name := Some ''X'', riskAnalysis := Some (analysis None (Some 5))\<rparr>"

text \<open>An app with markup in its name, an analysis and data usage.\<close>

definition script_app :: app where
  "script_app = blank_app\<lparr>name := Some ''<script>alert(1)</script>'', packageName := Some ''com.x'',
     riskAnalysis := Some (analysis (Some ''HIGH_RISK'') (Some 90)),
     dataUsage := Some \<lparr>total_bytes = Some 2048, wifi = Some 1024, mobile = Some 1024\<rparr>\<rparr>"

text \<open>
  The three apps of the end-to-end scenario: A (high risk, score 90, the camera listed
  twice), B (medium risk, score 40) and C (no analysis, no permissions).
\<close>

definition app_A :: app where
  "app_A = blank_app\<lparr>name := Some ''A'', permissions := Some [''CAMERA'', ''CAMERA'', ''LOCATION''],
     riskAnalysis := Some (analysis (Some ''HIGH_RISK'') (Some 90))\<rparr>"

definition app_B :: app where
  "app_B = blank_app\<lparr>name := Some ''B'', permissions := Some [''STORAGE''],
     riskAnalysis := Some (analysis (Some ''MEDIUM_RISK'') (Some 40))\<rparr>"

definition app_C :: app where
  "app_C = blank_app\<lparr>name := Some ''C''\<rparr>"

text \<open>An app D with the score of B.\<close>

definition app_D :: app where
  "app_D = blank_app\<lparr>name := Some ''D'', riskAnalysis := Some (analysis (Some ''LOW_RISK'') (Some 40))\<rparr>"

text \<open>An app of high risk and nothing else: its analysis has no score.\<close>

definition high_app :: app where
  "high_app = blank_app\<lparr>riskAnalysis := Some (analysis (Some ''HIGH_RISK'') None)\<rparr>"

text \<open>An app whose second permission identifier is the numeral 7.\<close>

definition index_app :: app where
  "index_app = blank_app\<lparr>name := Some ''N'', permissions := Some [''CAMERA'', ''7'']\<rparr>"

text \<open>An app with one risk factor, of the given level.\<close>

definition factor_app :: "string option \<Rightarrow> app" where
  "factor_app l = blank_app\<lparr>name := Some ''F'', permissions := Some [''CAMERA''],
     riskAnalysis := Some \<lparr>riskLevel = Some ''HIGH_RISK'', riskScore = Some 90, highRiskCount = Some 1,
       riskFactors = Some [\<lparr>permission = Some ''CAMERA'', level = l\<rparr>]\<rparr>\<rparr>"

text \<open>An app that has used the given number of bytes over wifi, and nothing else.\<close>

definition usage_app :: "int \<Rightarrow> app" where
  "usage_app w = blank_app\<lparr>dataUsage := Some \<lparr>total_bytes = None, wifi = Some w, mobile = None\<rparr>\<rparr>"

text \<open>A layout with no text around the sections.\<close>

definition bare_layout :: layout where
  "bare_layout = \<lparr>before_priority = (\<lambda>data. []), before_consumers = (\<lambda>data. []),
     before_inventory = (\<lambda>data. []), after_inventory = (\<lambda>data. [])\<rparr>"


text \<open>
  The binary64 values of the natural logarithm at the byte counts of the examples below:
  at each of them the binary64 number nearest to the logarithm, which is what a correctly
  rounding \<^verbatim>\<open>Math.log\<close> returns there. Elsewhere the sample is 0 and is not used.
\<close>

definition log_table :: "(int \<times> rat) list" where
  "log_table =
     [(1, 0),
      (1024, 7804143460206699 / 2 ^ 50),
      (1536, 516291036728351 / 2 ^ 46),
      (2048, 8584557806227369 / 2 ^ 50),
      (2560, 4417897554932285 / 2 ^ 49),
      (32768, 365819224697189 / 2 ^ 45),
      (1048576, 7804143460206699 / 2 ^ 49),
      (123456789, 2622136689109509 / 2 ^ 47),
      (1073741824, 365819224697189 / 2 ^ 44),
      (1125899906842623, 4877589662629187 / 2 ^ 47),
      (1688849860263936, 4934653803560051 / 2 ^ 47),
      (9147936743096316, 2586213531329501 / 2 ^ 46),
      (9147936743096320, 2586213531329501 / 2 ^ 46)]"

definition sample_log :: "int \<Rightarrow> rat" where
  "sample_log b = (case map_of log_table b of None \<Rightarrow> 0 | Some v \<Rightarrow> v)"

text \<open>A parser that knows two JSON texts, for the part of the grammar left open.\<close>

definition tiny_json :: "string \<Rightarrow> js_error + json" where
  "tiny_json s = (if s = ''null'' then Inr JNull else if s = ''[]'' then Inr (JArray []) else Inl SyntaxError)"

section \<open>Properties\<close>

subsection \<open>The loop of the Statistics Aggregator in closed form\<close>

lemma count_app_fields:
  "n_high (count_app c a) = n_high c + (if tier a = ''HIGH_RISK'' then 1 else 0)"
  "n_medium (count_app c a) = n_medium c + (if tier a = ''MEDIUM_RISK'' then 1 else 0)"
  "n_low (count_app c a) = n_low c + (if tier a = ''LOW_RISK'' then 1 else 0)"
  "n_none (count_app c a) = n_none c +
     (if tier a \<noteq> ''HIGH_RISK'' \<and> tier a \<noteq> ''MEDIUM_RISK'' \<and> tier a \<noteq> ''LOW_RISK'' then 1 else 0)"
  "n_permissions (count_app c a) = n_permissions c + length (unique (or_empty (permissions a)))"
  "n_bytes (count_app c a) = js_add (n_bytes c) (or_zero (app_total a))"
  by (simp_all add: count_app_def tier_def Let_def)

lemma foldl_count_app:
  "n_high (foldl count_app c as) = n_high c + length (filter (\<lambda>a. tier a = ''HIGH_RISK'') as)"
  "n_medium (foldl count_app c as) = n_medium c + length (filter (\<lambda>a. tier a = ''MEDIUM_RISK'') as)"
  "n_low (foldl count_app c as) = n_low c + length (filter (\<lambda>a. tier a = ''LOW_RISK'') as)"
  "n_none (foldl count_app c as) = n_none c +
     length (filter (\<lambda>a. tier a \<noteq> ''HIGH_RISK'' \<and> tier a \<noteq> ''MEDIUM_RISK'' \<and> tier a \<noteq> ''LOW_RISK'') as)"
  "n_permissions (foldl count_app c as) =
     n_permissions c + sum_list (map (\<lambda>a. length (unique (or_empty (permissions a)))) as)"
  "n_bytes (foldl count_app c as) = foldl js_add (n_bytes c) (map (\<lambda>a. or_zero (app_total a)) as)"
  by (induction as arbitrary: c; simp add: count_app_fields)+

lemma tier_eq_iff:
  "tier a = ''HIGH_RISK'' \<longleftrightarrow> app_riskLevel a = Some ''HIGH_RISK''"
  "tier a = ''MEDIUM_RISK'' \<longleftrightarrow> app_riskLevel a = Some ''MEDIUM_RISK''"
  "tier a = ''LOW_RISK'' \<longleftrightarrow> app_riskLevel a = Some ''LOW_RISK''"
  by (auto simp: tier_def or_str_def split: option.splits)

lemma stats_tiers_sum:
  "highRisk (calculateStatistics Math_log as) + mediumRisk (calculateStatistics Math_log as)
   + lowRisk (calculateStatistics Math_log as) + noRisk (calculateStatistics Math_log as)
   = totalApps (calculateStatistics Math_log as)"
proof -
  have "length (filter (\<lambda>a. tier a = ''HIGH_RISK'') as)
      + length (filter (\<lambda>a. tier a = ''MEDIUM_RISK'') as)
      + length (filter (\<lambda>a. tier a = ''LOW_RISK'') as)
      + length (filter (\<lambda>a. tier a \<noteq> ''HIGH_RISK'' \<and> tier a \<noteq> ''MEDIUM_RISK'' \<and> tier a \<noteq> ''LOW_RISK'') as)
      = length as"
    by (induction as) auto
  then show ?thesis
    by (simp add: calculateStatistics_def Let_def foldl_count_app counters0_def)
qed

subsection \<open>Risk Categorizer\<close>

lemma categorize_disjoint:
  "set (cat_highRisk (categorizeByRisk as)) \<inter> set (cat_mediumRisk (categorizeByRisk as)) = {}"
  "set (cat_highRisk (categorizeByRisk as)) \<inter> set (cat_lowRisk (categorizeByRisk as)) = {}"
  "set (cat_highRisk (categorizeByRisk as)) \<inter> set (cat_noRisk (categorizeByRisk as)) = {}"
  "set (cat_mediumRisk (categorizeByRisk as)) \<inter> set (cat_lowRisk (categorizeByRisk as)) = {}"
  "set (cat_mediumRisk (categorizeByRisk as)) \<inter> set (cat_noRisk (categorizeByRisk as)) = {}"
  "set (cat_lowRisk (categorizeByRisk as)) \<inter> set (cat_noRisk (categorizeByRisk as)) = {}"
  by (auto simp: categorizeByRisk_def app_riskLevel_def split: option.splits)

lemma categorize_order:
  "subseq (cat_highRisk (categorizeByRisk as)) as"
  "subseq (cat_mediumRisk (categorizeByRisk as)) as"
  "subseq (cat_lowRisk (categorizeByRisk as)) as"
  "subseq (cat_noRisk (categorizeByRisk as)) as"
  by (simp_all add: categorizeByRisk_def)

text \<open>
  The first three groups have the sizes the Statistics Aggregator counts; the fourth is
  never larger than its \<open>noRisk\<close>, and smaller when an analysed app has a level outside
  the four names.
\<close>

lemma categorize_sizes:
  "length (cat_highRisk (categorizeByRisk as)) = highRisk (calculateStatistics Math_log as)"
  "length (cat_mediumRisk (categorizeByRisk as)) = mediumRisk (calculateStatistics Math_log as)"
  "length (cat_lowRisk (categorizeByRisk as)) = lowRisk (calculateStatistics Math_log as)"
  by (simp_all add: categorizeByRisk_def calculateStatistics_def Let_def foldl_count_app
      counters0_def tier_eq_iff)

lemma categorize_noRisk_le:
  "length (cat_noRisk (categorizeByRisk as)) \<le> noRisk (calculateStatistics Math_log as)"
proof -
  have "length (filter (\<lambda>a. case riskAnalysis a of None \<Rightarrow> True
                           | Some ra \<Rightarrow> riskLevel ra = Some ''NO_RISK'') as)
      \<le> length (filter (\<lambda>a. tier a \<noteq> ''HIGH_RISK'' \<and> tier a \<noteq> ''MEDIUM_RISK'' \<and> tier a \<noteq> ''LOW_RISK'') as)"
    by (induction as) (auto simp: tier_def or_str_def app_riskLevel_def split: option.splits)
  then show ?thesis
    by (simp add: categorizeByRisk_def calculateStatistics_def Let_def foldl_count_app counters0_def)
qed

text \<open>
  When every analysed app carries one of the four level names, the groups do partition
  the input.
\<close>

lemma categorize_partition:
  assumes "list_all (\<lambda>a. case riskAnalysis a of None \<Rightarrow> True
             | Some ra \<Rightarrow> riskLevel ra = Some ''HIGH_RISK'' \<or> riskLevel ra = Some ''MEDIUM_RISK''
                 \<or> riskLevel ra = Some ''LOW_RISK'' \<or> riskLevel ra = Some ''NO_RISK'') as"
  shows "mset (cat_highRisk (categorizeByRisk as)) + mset (cat_mediumRisk (categorizeByRisk as))
       + mset (cat_lowRisk (categorizeByRisk as)) + mset (cat_noRisk (categorizeByRisk as)) = mset as"
  using assms
  by (induction as) (auto simp: categorizeByRisk_def app_riskLevel_def split: option.splits)

text \<open>
  C1. The claim: the four groups of the Risk Categorizer are disjoint, every app is in
  exactly one of them, an app whose level is missing or not recognised is in \<open>noRisk\<close>,
  and the sizes add up to \<open>totalApps\<close>. On an app that has an analysis without a level the
  code does otherwise: the Statistics Aggregator counts it under \<open>noRisk\<close>, and the Risk
  Categorizer puts it in no group at all.
\<close>

theorem categorizeByRisk_drops_unlabelled:
  "categorizeByRisk [unlabelled_app]
     = \<lparr>cat_highRisk = [], cat_mediumRisk = [], cat_lowRisk = [], cat_noRisk = []\<rparr>
   \<and> totalApps (calculateStatistics Math_log [unlabelled_app]) = 1
   \<and> noRisk (calculateStatistics Math_log [unlabelled_app]) = 1"
  by (simp add: categorizeByRisk_def calculateStatistics_def Let_def count_app_def counters0_def
      unlabelled_app_def blank_app_def analysis_def app_riskLevel_def or_str_def)

subsection \<open>Sorting: a permutation, ordered, stable\<close>

lemma mset_insert_sorted: "mset (insert_sorted cmp x ys) = add_mset x (mset ys)"
  by (induction ys) auto

lemma mset_Array_sort: "mset (Array_sort cmp xs) = mset xs"
  by (induction xs) (auto simp: Array_sort_def mset_insert_sorted)

lemma set_Array_sort: "set (Array_sort cmp xs) = set xs"
  using mset_Array_sort [of cmp xs] by (metis set_mset_mset)

lemma length_Array_sort: "length (Array_sort cmp xs) = length xs"
  using mset_Array_sort [of cmp xs] by (metis size_mset)

lemma set_insert_sorted: "set (insert_sorted cmp x ys) = insert x (set ys)"
  using mset_insert_sorted [of cmp x ys] by (metis set_mset_add_mset_insert set_mset_mset)

lemma sorted_insert_desc:
  fixes key :: "'a \<Rightarrow> int"
  assumes "sorted_wrt (\<lambda>a b. key b \<le> key a) ys"
  shows "sorted_wrt (\<lambda>a b. key b \<le> key a) (insert_sorted (\<lambda>a b. key b - key a) x ys)"
  using assms
proof (induction ys)
  case Nil
  then show ?case by simp
next
  case (Cons y ys)
  show ?case
  proof (cases "key y \<le> key x")
    case True
    with Cons.prems show ?thesis by auto
  next
    case False
    with Cons show ?thesis by (auto simp: set_insert_sorted)
  qed
qed

lemma sorted_Array_sort_desc:
  fixes key :: "'a \<Rightarrow> int"
  shows "sorted_wrt (\<lambda>a b. key b \<le> key a) (Array_sort (\<lambda>a b. key b - key a) xs)"
  by (induction xs) (simp_all add: Array_sort_def sorted_insert_desc)

lemma filter_insert_desc:
  fixes key :: "'a \<Rightarrow> int"
  shows "filter (\<lambda>a. key a = k) (insert_sorted (\<lambda>a b. key b - key a) x ys)
       = (if key x = k then x # filter (\<lambda>a. key a = k) ys else filter (\<lambda>a. key a = k) ys)"
  by (induction ys) auto

lemma stable_Array_sort_desc:
  fixes key :: "'a \<Rightarrow> int"
  shows "filter (\<lambda>a. key a = k) (Array_sort (\<lambda>a b. key b - key a) xs) = filter (\<lambda>a. key a = k) xs"
  by (induction xs) (simp_all add: Array_sort_def filter_insert_desc)

lemma sorted_wrt_take: "sorted_wrt P xs \<Longrightarrow> sorted_wrt P (take n xs)"
  by (metis append_take_drop_id sorted_wrt_append)

subsection \<open>Top-Risk Ranker\<close>

text \<open>
  C5. The result of the Top-Risk Ranker is the first \<open>limit\<close> entries (10 when no limit is
  given) of a list \<open>ranked\<close> that holds exactly the apps carrying an analysis, is ordered by
  non-increasing score, and keeps the apps of equal score in their order of input. The
  score of an app is the \<open>riskScore\<close> of its analysis, and 0 when the analysis has none. So
  of B (40), an app without score, C (no analysis), D (40) and A (90) the ranking is A, B,
  D and the app without score; with D before B in the input it is A, D, B; and a limit of
  2 keeps A and B.
\<close>

theorem getTopRiskyApps_ranked:
  "(\<exists>ranked.
     getTopRiskyApps as limit = take (case limit of None \<Rightarrow> 10 | Some n \<Rightarrow> n) ranked
     \<and> mset ranked = mset (filter (\<lambda>a. riskAnalysis a \<noteq> None) as)
     \<and> sorted_wrt (\<lambda>a b. score b \<le> score a) ranked
     \<and> (\<forall>k. filter (\<lambda>a. score a = k) ranked
              = filter (\<lambda>a. score a = k) (filter (\<lambda>a. riskAnalysis a \<noteq> None) as))
     \<and> length (getTopRiskyApps as limit) \<le> (case limit of None \<Rightarrow> 10 | Some n \<Rightarrow> n)
     \<and> sorted_wrt (\<lambda>a b. score b \<le> score a) (getTopRiskyApps as limit))
   \<and> (\<forall>a. score a
          = (case riskAnalysis a of None \<Rightarrow> 0
             | Some ra \<Rightarrow> (case riskScore ra of None \<Rightarrow> 0 | Some n \<Rightarrow> n)))
   \<and> length (getTopRiskyApps as limit)
       = min (case limit of None \<Rightarrow> 10 | Some n \<Rightarrow> n)
             (length (filter (\<lambda>a. riskAnalysis a \<noteq> None) as))
   \<and> getTopRiskyApps [app_B, high_app, app_C, app_D, app_A] None = [app_A, app_B, app_D, high_app]
   \<and> getTopRiskyApps [app_D, app_C, app_B, app_A] None = [app_A, app_D, app_B]
   \<and> getTopRiskyApps [app_B, high_app, app_C, app_D, app_A] (Some 2) = [app_A, app_B]
   \<and> getTopRiskyApps [app_B, high_app, app_C, app_D, app_A] (Some 0) = []"
proof -
  let ?with = "filter (\<lambda>a. riskAnalysis a \<noteq> None) as"
  let ?ranked = "Array_sort (\<lambda>a b. score b - score a) ?with"
  have srt: "sorted_wrt (\<lambda>a b. score b \<le> score a) ?ranked"
    by (rule sorted_Array_sort_desc)
  have "getTopRiskyApps as limit = take (case limit of None \<Rightarrow> 10 | Some n \<Rightarrow> n) ?ranked"
    by (simp add: getTopRiskyApps_def)
  moreover have "mset ?ranked = mset ?with"
    by (rule mset_Array_sort)
  moreover have "\<forall>k. filter (\<lambda>a. score a = k) ?ranked = filter (\<lambda>a. score a = k) ?with"
    by (simp add: stable_Array_sort_desc)
  moreover have "length (getTopRiskyApps as limit) \<le> (case limit of None \<Rightarrow> 10 | Some n \<Rightarrow> n)"
    by (simp add: getTopRiskyApps_def)
  moreover have "sorted_wrt (\<lambda>a b. score b \<le> score a) (getTopRiskyApps as limit)"
    unfolding getTopRiskyApps_def by (rule sorted_wrt_take [OF srt])
  ultimately have general: "\<exists>ranked.
     getTopRiskyApps as limit = take (case limit of None \<Rightarrow> 10 | Some n \<Rightarrow> n) ranked
     \<and> mset ranked = mset (filter (\<lambda>a. riskAnalysis a \<noteq> None) as)
     \<and> sorted_wrt (\<lambda>a b. score b \<le> score a) ranked
     \<and> (\<forall>k. filter (\<lambda>a. score a = k) ranked
              = filter (\<lambda>a. score a = k) (filter (\<lambda>a. riskAnalysis a \<noteq> None) as))
     \<and> length (getTopRiskyApps as limit) \<le> (case limit of None \<Rightarrow> 10 | Some n \<Rightarrow> n)
     \<and> sorted_wrt (\<lambda>a b. score b \<le> score a) (getTopRiskyApps as limit)"
    using srt by blast
  have key: "\<forall>a. score a
          = (case riskAnalysis a of None \<Rightarrow> 0
             | Some ra \<Rightarrow> (case riskScore ra of None \<Rightarrow> 0 | Some n \<Rightarrow> n))"
    by (simp add: score_def or_zero_def split: option.splits)
  have len: "length (getTopRiskyApps as limit)
       = min (case limit of None \<Rightarrow> 10 | Some n \<Rightarrow> n)
             (length (filter (\<lambda>a. riskAnalysis a \<noteq> None) as))"
    by (simp add: getTopRiskyApps_def length_Array_sort min.commute)
  have ex: "getTopRiskyApps [app_B, high_app, app_C, app_D, app_A] None = [app_A, app_B, app_D, high_app]"
    "getTopRiskyApps [app_D, app_C, app_B, app_A] None = [app_A, app_D, app_B]"
    "getTopRiskyApps [app_B, high_app, app_C, app_D, app_A] (Some 2) = [app_A, app_B]"
    "getTopRiskyApps [app_B, high_app, app_C, app_D, app_A] (Some 0) = []"
    by (simp_all add: getTopRiskyApps_def Array_sort_def app_A_def app_B_def app_C_def app_D_def
        high_app_def blank_app_def analysis_def score_def or_zero_def)
  show ?thesis
    using general key len ex by blast
qed

text \<open>The scenario of three apps: A and B are ranked, in this order, and C is left out.\<close>

lemma scenario_topRiskyApps: "getTopRiskyApps [app_A, app_B, app_C] None = [app_A, app_B]"
  by (simp add: getTopRiskyApps_def Array_sort_def app_A_def app_B_def app_C_def blank_app_def
      analysis_def score_def or_zero_def)

subsection \<open>Report generation: what reaches the caller\<close>

lemma parse_blob_absent: "parse_blob g None = Inr (JObject [])" "parse_blob g (Some []) = Inr (JObject [])"
  by (simp_all add: parse_blob_def truthy_def)

lemma parse_blob_present: "s \<noteq> [] \<Longrightarrow> parse_blob g (Some s) = JSON_parse g s"
  by (simp add: parse_blob_def truthy_def str_of_def)

lemma JSON_parse_undefined: "JSON_parse g ''undefined'' = Inl SyntaxError"
  by (simp add: JSON_parse_def is_ws_def)

lemma generateReport_permitted:
  "requestStoragePermission dev answer \<Longrightarrow>
   generateReport Math_log g now dev answer settingsItem scanItem t export as
     = (case prepareReportData Math_log g now dev settingsItem scanItem as of
          Inl e \<Rightarrow> Inl (GenerationFailed e)
        | Inr data \<Rightarrow> (case export (generateHTMLContent Math_log t data) of
                        Inl e \<Rightarrow> Inl (GenerationFailed e) | Inr file \<Rightarrow> Inr file))"
  by (simp add: generateReport_def split: sum.splits)

subsection \<open>Permission Analyzer: when it throws\<close>

lemma add_factor_known: "known_level f \<Longrightarrow> \<exists>r'. add_factor r f = Inr r'"
  by (auto simp: add_factor_def known_level_def)

lemma add_factor_unknown: "\<not> known_level f \<Longrightarrow> add_factor r f = Inl TypeError"
  by (auto simp: add_factor_def known_level_def)

lemma forEach_add_factor_known:
  "list_all known_level fs \<Longrightarrow> \<exists>r'. forEach add_factor r fs = Inr r'"
proof (induction fs arbitrary: r)
  case Nil
  then show ?case by simp
next
  case (Cons f fs)
  then obtain r1 where "add_factor r f = Inr r1"
    using add_factor_known [of f r] by auto
  with Cons show ?case by simp
qed

lemma forEach_add_factor_unknown:
  "\<not> list_all known_level fs \<Longrightarrow> forEach add_factor r fs = Inl TypeError"
proof (induction fs arbitrary: r)
  case Nil
  then show ?case by simp
next
  case (Cons f fs)
  show ?case
  proof (cases "known_level f")
    case True
    then obtain r1 where "add_factor r f = Inr r1"
      using add_factor_known [of f r] by auto
    with Cons True show ?thesis by simp
  next
    case False
    then show ?thesis by (simp add: add_factor_unknown)
  qed
qed

lemma analyze_app_known:
  "list_all known_level (app_factors a) \<Longrightarrow>
   \<exists>r'. analyze_app (pc, r) a = Inr (foldl count_permission pc (unique (or_empty (permissions a))), r')"
proof (cases "riskAnalysis a")
  case None
  then show ?thesis by (simp add: analyze_app_def)
next
  case (Some ra)
  assume k: "list_all known_level (app_factors a)"
  show ?thesis
  proof (cases "riskFactors ra")
    case None
    with Some show ?thesis by (simp add: analyze_app_def)
  next
    case fs: (Some fs)
    from k Some fs have "list_all known_level fs"
      by (simp add: app_factors_def or_empty_def)
    then obtain r' where "forEach add_factor r fs = Inr r'"
      using forEach_add_factor_known by blast
    with Some fs show ?thesis by (simp add: analyze_app_def)
  qed
qed

lemma analyze_app_unknown:
  "\<not> list_all known_level (app_factors a) \<Longrightarrow> analyze_app st a = Inl TypeError"
  by (auto simp: analyze_app_def app_factors_def or_empty_def forEach_add_factor_unknown
      split: option.splits)

lemma forEach_analyze_known:
  "list_all (\<lambda>a. list_all known_level (app_factors a)) as \<Longrightarrow>
   \<exists>r'. forEach analyze_app (pc, r) as
     = Inr (foldl (\<lambda>pc a. foldl count_permission pc (unique (or_empty (permissions a)))) pc as, r')"
proof (induction as arbitrary: pc r)
  case Nil
  then show ?case by simp
next
  case (Cons a as)
  then obtain r1 where "analyze_app (pc, r) a
      = Inr (foldl count_permission pc (unique (or_empty (permissions a))), r1)"
    using analyze_app_known [of a pc r] by auto
  with Cons show ?case by simp
qed

lemma forEach_analyze_unknown:
  "\<not> list_all (\<lambda>a. list_all known_level (app_factors a)) as \<Longrightarrow>
   forEach analyze_app st as = Inl TypeError"
proof (induction as arbitrary: st)
  case Nil
  then show ?case by simp
next
  case (Cons a as)
  show ?case
  proof (cases "list_all known_level (app_factors a)")
    case True
    then obtain r1 where "analyze_app (fst st, snd st) a
        = Inr (foldl count_permission (fst st) (unique (or_empty (permissions a))), r1)"
      using analyze_app_known [of a "fst st" "snd st"] by auto
    with Cons True show ?thesis by simp
  next
    case False
    then show ?thesis by (simp add: analyze_app_unknown)
  qed
qed

text \<open>The table of counts of a run that returns.\<close>

lemma analyzePermissions_count:
  assumes "analyzePermissions as = Inr pa"
  shows "permissionCount pa
     = foldl (\<lambda>pc a. foldl count_permission pc (unique (or_empty (permissions a)))) [] as"
    and "mostCommon pa
     = take 10 (Array_sort (\<lambda>a b. int (snd b) - int (snd a)) (Object_entries (permissionCount pa)))"
proof -
  have k: "list_all (\<lambda>a. list_all known_level (app_factors a)) as"
  proof (rule ccontr)
    assume "\<not> ?thesis"
    then have "forEach analyze_app ([], \<lparr>HIGH = [], MEDIUM = [], LOW = []\<rparr>) as = Inl TypeError"
      by (rule forEach_analyze_unknown)
    with assms show False by (simp add: analyzePermissions_def)
  qed
  then obtain r' where "forEach analyze_app ([], \<lparr>HIGH = [], MEDIUM = [], LOW = []\<rparr>) as
      = Inr (foldl (\<lambda>pc a. foldl count_permission pc (unique (or_empty (permissions a)))) [] as, r')"
    using forEach_analyze_known by blast
  with assms show "permissionCount pa
     = foldl (\<lambda>pc a. foldl count_permission pc (unique (or_empty (permissions a)))) [] as"
    and "mostCommon pa
     = take 10 (Array_sort (\<lambda>a b. int (snd b) - int (snd a)) (Object_entries (permissionCount pa)))"
    by (auto simp: analyzePermissions_def)
qed

text \<open>What the Permission Analyzer throws, the construction of the report model and
  \<^verbatim>\<open>generateReport\<close> throw on: nothing on the way catches it but the wrapping \<^verbatim>\<open>catch\<close>.\<close>

lemma prepareReportData_analyzer_throws:
  "analyzePermissions as = Inl e \<Longrightarrow>
   \<exists>e'. prepareReportData Math_log g now dev settingsItem scanItem as = Inl e'"
  by (auto simp: prepareReportData_def split: sum.splits)

lemma prepareReportData_analyzer_error:
  "analyzePermissions as = Inl e \<Longrightarrow> parse_blob g st = Inr v \<Longrightarrow> parse_blob g sc = Inr w \<Longrightarrow>
   prepareReportData Math_log g now dev (Inr st) (Inr sc) as = Inl e"
  by (simp add: prepareReportData_def)

lemma generateReport_fails:
  "prepareReportData Math_log g now dev settingsItem scanItem as = Inl e' \<Longrightarrow>
   \<exists>e. generateReport Math_log g now dev answer settingsItem scanItem t export as
     = Inl (GenerationFailed e)"
  by (simp add: generateReport_def)

text \<open>
  C4. When every risk factor of every app has the level HIGH, MEDIUM or LOW, the
  Permission Analyzer returns a result. When some factor has another level or none, it
  throws a TypeError, and the whole request fails: the construction of the report model
  throws, that very TypeError when both blobs are read and parse, and \<^verbatim>\<open>generateReport\<close>
  throws to its caller, the TypeError wrapped when the storage permission is granted too.
  So it is for a factor without a level, and for one of level \<^verbatim>\<open>CRITICAL\<close>.
\<close>

theorem analyzePermissions_throws_iff:
  "(list_all (\<lambda>a. list_all known_level (app_factors a)) as
      \<longrightarrow> (\<exists>pa. analyzePermissions as = Inr pa))
   \<and> (\<not> list_all (\<lambda>a. list_all known_level (app_factors a)) as
      \<longrightarrow> analyzePermissions as = Inl TypeError
        \<and> (\<exists>e. prepareReportData Math_log g now dev settingsItem scanItem as = Inl e)
        \<and> (\<exists>e. generateReport Math_log g now dev answer settingsItem scanItem t export as
                = Inl (GenerationFailed e))
        \<and> ((\<exists>v. parse_blob g st = Inr v) \<and> (\<exists>w. parse_blob g sc = Inr w) \<longrightarrow>
             prepareReportData Math_log g now dev (Inr st) (Inr sc) as = Inl TypeError
             \<and> (requestStoragePermission dev answer \<longrightarrow>
                  generateReport Math_log g now dev answer (Inr st) (Inr sc) t export as
                    = Inl (GenerationFailed TypeError))))
   \<and> (\<forall>f. known_level f
          \<longleftrightarrow> level f = Some ''HIGH'' \<or> level f = Some ''MEDIUM'' \<or> level f = Some ''LOW'')
   \<and> (\<forall>a. app_factors a
          = (case riskAnalysis a of None \<Rightarrow> []
             | Some ra \<Rightarrow> (case riskFactors ra of None \<Rightarrow> [] | Some fs \<Rightarrow> fs)))
   \<and> analyzePermissions [factor_app None] = Inl TypeError
   \<and> analyzePermissions [factor_app (Some ''CRITICAL'')] = Inl TypeError
   \<and> generateReport Math_log g now \<lparr>platform = ''ios'', osVersion = 17\<rparr> answer (Inr None) (Inr None)
        t export [factor_app None] = Inl (GenerationFailed TypeError)"
proof -
  have returns: "\<exists>pa. analyzePermissions as = Inr pa"
    if "list_all (\<lambda>a. list_all known_level (app_factors a)) as"
    using forEach_analyze_known [OF that, of "[]" "\<lparr>HIGH = [], MEDIUM = [], LOW = []\<rparr>"]
    by (auto simp: analyzePermissions_def)
  have throws: "analyzePermissions bs = Inl TypeError"
    if "\<not> list_all (\<lambda>a. list_all known_level (app_factors a)) bs" for bs
    using forEach_analyze_unknown [OF that] by (simp add: analyzePermissions_def)
  have unknown: "\<not> list_all (\<lambda>a. list_all known_level (app_factors a)) [factor_app l]"
    if "l \<noteq> Some ''HIGH''" "l \<noteq> Some ''MEDIUM''" "l \<noteq> Some ''LOW''" for l
    using that by (simp add: factor_app_def blank_app_def app_factors_def or_empty_def known_level_def)
  have request: "(\<exists>e. prepareReportData Math_log g now dev settingsItem scanItem bs = Inl e)
      \<and> (\<exists>e. generateReport Math_log g now dev answer settingsItem scanItem t export bs
              = Inl (GenerationFailed e))"
    if "analyzePermissions bs = Inl TypeError" for bs dev settingsItem scanItem
    using prepareReportData_analyzer_throws [OF that, of Math_log g now dev settingsItem scanItem]
      generateReport_fails [of Math_log g now dev settingsItem scanItem bs _ answer t export]
    by blast
  have parsed: "prepareReportData Math_log g now dev (Inr st) (Inr sc) bs = Inl TypeError
      \<and> (requestStoragePermission dev answer \<longrightarrow>
           generateReport Math_log g now dev answer (Inr st) (Inr sc) t export bs
             = Inl (GenerationFailed TypeError))"
    if "analyzePermissions bs = Inl TypeError" "parse_blob g st = Inr v" "parse_blob g sc = Inr w"
    for bs dev st sc v w
    using prepareReportData_analyzer_error [OF that, of Math_log now dev]
    by (simp add: generateReport_permitted)
  have ios: "generateReport Math_log g now \<lparr>platform = ''ios'', osVersion = 17\<rparr> answer (Inr None) (Inr None)
        t export [factor_app None] = Inl (GenerationFailed TypeError)"
  proof -
    have "requestStoragePermission \<lparr>platform = ''ios'', osVersion = 17\<rparr> answer"
      by (simp add: requestStoragePermission_def)
    then show ?thesis
      using parsed [OF throws [OF unknown [of None]], of None "JObject []" None "JObject []"
          "\<lparr>platform = ''ios'', osVersion = 17\<rparr>"]
      by (simp add: parse_blob_absent)
  qed
  have notions: "\<forall>f. known_level f
          \<longleftrightarrow> level f = Some ''HIGH'' \<or> level f = Some ''MEDIUM'' \<or> level f = Some ''LOW''"
    "\<forall>a. app_factors a
          = (case riskAnalysis a of None \<Rightarrow> []
             | Some ra \<Rightarrow> (case riskFactors ra of None \<Rightarrow> [] | Some fs \<Rightarrow> fs))"
    by (simp_all add: known_level_def app_factors_def or_empty_def split: option.splits)
  have fails: "analyzePermissions as = Inl TypeError
        \<and> (\<exists>e. prepareReportData Math_log g now dev settingsItem scanItem as = Inl e)
        \<and> (\<exists>e. generateReport Math_log g now dev answer settingsItem scanItem t export as
                = Inl (GenerationFailed e))
        \<and> ((\<exists>v. parse_blob g st = Inr v) \<and> (\<exists>w. parse_blob g sc = Inr w) \<longrightarrow>
             prepareReportData Math_log g now dev (Inr st) (Inr sc) as = Inl TypeError
             \<and> (requestStoragePermission dev answer \<longrightarrow>
                  generateReport Math_log g now dev answer (Inr st) (Inr sc) t export as
                    = Inl (GenerationFailed TypeError)))"
    if u: "\<not> list_all (\<lambda>a. list_all known_level (app_factors a)) as"
    using throws [OF u] request [OF throws [OF u]] parsed [OF throws [OF u]] by blast
  show ?thesis
    using returns fails notions throws [OF unknown [of None]]
      throws [OF unknown [of "Some ''CRITICAL''"]] ios
    by simp
qed

theorem analyzePermissions_throws_iff_witness:
  "list_all (\<lambda>a. list_all known_level (app_factors a)) [factor_app (Some ''HIGH''), blank_app]
   \<and> (\<exists>pa. analyzePermissions [factor_app (Some ''HIGH''), blank_app] = Inr pa)
   \<and> \<not> list_all (\<lambda>a. list_all known_level (app_factors a)) [blank_app, factor_app (Some ''high'')]
   \<and> analyzePermissions [blank_app, factor_app (Some ''high'')] = Inl TypeError
   \<and> parse_blob tiny_json (Some ''null'') = Inr JNull
   \<and> parse_blob tiny_json (Some ''[]'') = Inr (JArray [])
   \<and> prepareReportData sample_log tiny_json 0 \<lparr>platform = ''android'', osVersion = 30\<rparr>
        (Inr (Some ''null'')) (Inr (Some ''[]'')) [blank_app, factor_app (Some ''high'')] = Inl TypeError
   \<and> requestStoragePermission \<lparr>platform = ''android'', osVersion = 30\<rparr> (Inr True)
   \<and> generateReport sample_log tiny_json 0 \<lparr>platform = ''android'', osVersion = 30\<rparr> (Inr True)
        (Inr (Some ''null'')) (Inr (Some ''[]'')) bare_layout (\<lambda>html. Inr html)
        [blank_app, factor_app (Some ''high'')] = Inl (GenerationFailed TypeError)
   \<and> (\<exists>e. generateReport sample_log tiny_json 0 \<lparr>platform = ''android'', osVersion = 30\<rparr> (Inr False)
        (Inl StorageError) (Inr None) bare_layout (\<lambda>html. Inr html)
        [blank_app, factor_app (Some ''high'')] = Inl (GenerationFailed e))"
proof -
  let ?dev = "\<lparr>platform = ''android'', osVersion = 30\<rparr>"
  let ?bad = "[blank_app, factor_app (Some ''high'')]"
  have 1: "list_all (\<lambda>a. list_all known_level (app_factors a)) [factor_app (Some ''HIGH''), blank_app]"
    by (simp add: factor_app_def blank_app_def app_factors_def or_empty_def known_level_def)
  have 2: "\<not> list_all (\<lambda>a. list_all known_level (app_factors a)) ?bad"
    by (simp add: factor_app_def blank_app_def app_factors_def or_empty_def known_level_def)
  have 3: "parse_blob tiny_json (Some ''null'') = Inr JNull"
    "parse_blob tiny_json (Some ''[]'') = Inr (JArray [])"
    by (simp_all add: parse_blob_present JSON_parse_def is_ws_def tiny_json_def)
  have 4: "requestStoragePermission ?dev (Inr True)"
    by (simp add: requestStoragePermission_def)
  note good = analyzePermissions_throws_iff [where as = "[factor_app (Some ''HIGH''), blank_app]"
      and Math_log = sample_log and g = tiny_json and now = 0 and dev = ?dev
      and settingsItem = "Inl StorageError" and scanItem = "Inr None" and answer = "Inr True"
      and t = bare_layout and export = "\<lambda>html::string. (Inr html :: js_error + string)"
      and st = "Some ''null''" and sc = "Some ''[]''"]
  note bad = analyzePermissions_throws_iff [where as = ?bad
      and Math_log = sample_log and g = tiny_json and now = 0 and dev = ?dev
      and settingsItem = "Inl StorageError" and scanItem = "Inr None" and answer = "Inr True"
      and t = bare_layout and export = "\<lambda>html::string. (Inr html :: js_error + string)"
      and st = "Some ''null''" and sc = "Some ''[]''"]
  note refused = analyzePermissions_throws_iff [where as = ?bad
      and Math_log = sample_log and g = tiny_json and now = 0 and dev = ?dev
      and settingsItem = "Inl StorageError" and scanItem = "Inr None" and answer = "Inr False"
      and t = bare_layout and export = "\<lambda>html::string. (Inr html :: js_error + string)"
      and st = "Some ''null''" and sc = "Some ''[]''"]
  have 5: "\<exists>pa. analyzePermissions [factor_app (Some ''HIGH''), blank_app] = Inr pa"
    using good 1 by blast
  have 6: "analyzePermissions ?bad = Inl TypeError"
    "prepareReportData sample_log tiny_json 0 ?dev (Inr (Some ''null'')) (Inr (Some ''[]'')) ?bad
       = Inl TypeError"
    "generateReport sample_log tiny_json 0 ?dev (Inr True) (Inr (Some ''null'')) (Inr (Some ''[]''))
       bare_layout (\<lambda>html. Inr html) ?bad = Inl (GenerationFailed TypeError)"
    using bad 2 3 4 by blast+
  have 7: "\<exists>e. generateReport sample_log tiny_json 0 ?dev (Inr False) (Inl StorageError) (Inr None)
       bare_layout (\<lambda>html. Inr html) ?bad = Inl (GenerationFailed e)"
    using refused 2 by blast
  from 1 2 3 4 5 6 7 show ?thesis by blast
qed

subsection \<open>Document Renderer: the inventory\<close>

lemma sublist_concat_mem: "x \<in> set xss \<Longrightarrow> sublist x (concat xss)"
proof (induction xss)
  case Nil
  then show ?case by simp
next
  case (Cons y ys)
  then show ?case
    by (auto intro: sublist_order.order_trans [OF _ sublist_append_leftI])
qed

lemma map_index_length: "length (map_index f xs) = length xs"
  by (simp add: map_index_def)

lemma map_index_nth: "i < length xs \<Longrightarrow> map_index f xs ! i = f i (xs ! i)"
  by (simp add: map_index_def)





subsection \<open>Document Renderer: escaping\<close>

text \<open>The escaped text holds none of the characters that open markup.\<close>

lemma escapeHtml_clean:
  \<open>CHR ''<'' \<notin> set (escapeHtml t) \<and> CHR ''>'' \<notin> set (escapeHtml t)
   \<and> CHR 0x22 \<notin> set (escapeHtml t) \<and> CHR 0x27 \<notin> set (escapeHtml t)\<close>
  by (auto simp: escapeHtml_def escape_char_def split: if_splits)

text \<open>
  The inventory prints names through \<^verbatim>\<open>escapeHtml\<close>. The card of a top priority app and
  the row of a top data consumer print them as they are.
\<close>

lemma inventoryRow_escapes:
  "sublist (escapeHtml (Some (display_name a ''Unknown''))) (inventoryRow i a)"
  "sublist (escapeHtml (packageName a)) (inventoryRow i a)"
  unfolding inventoryRow_def by (rule sublist_concat_mem, simp)+

lemma priorityCard_raw:
  "sublist (display_name a ''Unknown App'') (priorityCard Math_log i a)"
  "sublist (str_of (packageName a)) (priorityCard Math_log i a)"
  unfolding priorityCard_def by (rule sublist_concat_mem, simp)+

lemma consumerRow_raw:
  "sublist (c_name c) (consumerRow Math_log c)"
  "sublist (str_of (c_packageName c)) (consumerRow Math_log c)"
  unfolding consumerRow_def by (rule sublist_concat_mem, simp)+

lemma map_index_first: "f 0 x \<in> set (map_index f (x # xs))"
proof -
  have "map_index f (x # xs) ! 0 = f 0 ((x # xs) ! 0)"
    by (rule map_index_nth) simp
  moreover have "0 < length (map_index f (x # xs))"
    by (simp add: map_index_length)
  ultimately show ?thesis
    by (metis nth_Cons_0 nth_mem)
qed

lemma highPriorityPage_first:
  "sublist (priorityCard Math_log 0 a) (highPriorityPage Math_log (a # as))"
proof -
  have "sublist (priorityCard Math_log 0 a) (concat (map_index (priorityCard Math_log) (take 5 (a # as))))"
    using map_index_first [of "priorityCard Math_log" a "take 4 as"] by (simp add: sublist_concat_mem take_Cons')
  moreover have "sublist (concat (map_index (priorityCard Math_log) (take 5 (a # as)))) (highPriorityPage Math_log (a # as))"
    unfolding highPriorityPage_def by (simp only: length_Cons zero_less_Suc if_True, rule sublist_concat_mem) simp
  ultimately show ?thesis by (rule sublist_order.order_trans)
qed

lemma dataConsumersTable_first:
  "sublist (consumerRow Math_log c) (dataConsumersTable Math_log (c # cs))"
proof -
  have "sublist (consumerRow Math_log c) (concat (map (consumerRow Math_log) (c # cs)))"
    by (rule sublist_concat_mem) simp
  moreover have "sublist (concat (map (consumerRow Math_log) (c # cs))) (dataConsumersTable Math_log (c # cs))"
    unfolding dataConsumersTable_def by (simp only: length_Cons zero_less_Suc if_True, rule sublist_concat_mem) simp
  ultimately show ?thesis by (rule sublist_order.order_trans)
qed

lemma script_app_ranked: "getTopRiskyApps [script_app] (Some 10) = [script_app]"
  by (simp add: getTopRiskyApps_def Array_sort_def script_app_def blank_app_def)

lemma script_app_consumer:
  "topDataConsumers (summarizeDataUsage Math_log [script_app])
     = [\<lparr>c_name = ''<script>alert(1)</script>'', c_packageName = Some ''com.x'',
         c_total = 2048, c_wifi = 1024, c_mobile = 1024\<rparr>]"
  by (simp add: summarizeDataUsage_def Let_def List.map_filter_def consumer_of_def Array_sort_def
      script_app_def blank_app_def display_name_def truthy_def str_of_def or_zero_def)

lemma script_in_name: "sublist ''<script>'' ''<script>alert(1)</script>''"
  using sublist_append_rightI [of "''<script>''" "''alert(1)</script>''"] by simp

text \<open>
  C3. The claim: every app name and package name in the rendered document is escaped, in
  every section, so that a name holding \<^verbatim>\<open><script>\<close> never appears as it is. For an app
  named \<^verbatim>\<open><script>alert(1)</script>\<close> that has an analysis and data usage, the code
  prints \<^verbatim>\<open><script>\<close> as it is in the page of the top priority apps and in the table of
  the top data consumers, hence in the document; only the inventory escapes it.
\<close>

theorem script_name_rendered_raw:
  "sublist ''<script>'' (highPriorityPage Math_log (getTopRiskyApps [script_app] (Some 10)))
   \<and> sublist ''<script>'' (dataConsumersTable Math_log (topDataConsumers (summarizeDataUsage Math_log [script_app])))
   \<and> \<not> sublist ''<script>'' (inventoryBody [script_app])
   \<and> (case prepareReportData Math_log g now dev (Inr None) (Inr None) [script_app] of
         Inl e \<Rightarrow> False
       | Inr data \<Rightarrow> sublist ''<script>'' (generateHTMLContent Math_log t data))"
proof -
  have name: "display_name script_app ''Unknown App'' = ''<script>alert(1)</script>''"
    by (simp add: display_name_def truthy_def str_of_def script_app_def blank_app_def)
  have "sublist ''<script>alert(1)</script>'' (priorityCard Math_log 0 script_app)"
    using priorityCard_raw(1) [where a = script_app and i = 0] by (simp only: name)
  then have "sublist ''<script>'' (priorityCard Math_log 0 script_app)"
    by (rule sublist_order.order_trans [OF script_in_name])
  then have page: "sublist ''<script>'' (highPriorityPage Math_log [script_app])"
    using highPriorityPage_first [where a = script_app and as = "[]"] by (rule sublist_order.order_trans)
  let ?c = "\<lparr>c_name = ''<script>alert(1)</script>'', c_packageName = Some ''com.x'',
         c_total = 2048, c_wifi = 1024, c_mobile = 1024\<rparr>"
  have "sublist ''<script>alert(1)</script>'' (consumerRow Math_log ?c)"
    using consumerRow_raw(1) [where c = ?c] by simp
  then have "sublist ''<script>'' (consumerRow Math_log ?c)"
    by (rule sublist_order.order_trans [OF script_in_name])
  then have table: "sublist ''<script>'' (dataConsumersTable Math_log [?c])"
    using dataConsumersTable_first [where c = ?c and cs = "[]"] by (rule sublist_order.order_trans)
  have inv: "\<not> sublist ''<script>'' (inventoryBody [script_app])"
    by code_simp
  have ok: "list_all (\<lambda>a. list_all known_level (app_factors a)) [script_app]"
    by (simp add: script_app_def blank_app_def analysis_def app_factors_def or_empty_def)
  then obtain pa where pa: "analyzePermissions [script_app] = Inr pa"
    using forEach_analyze_known [OF ok, of "[]" "\<lparr>HIGH = [], MEDIUM = [], LOW = []\<rparr>"]
    by (auto simp: analyzePermissions_def)
  have doc: "sublist ''<script>'' (generateHTMLContent Math_log t data)"
    if "topRiskyApps data = [script_app]" for data
  proof -
    have "sublist (highPriorityPage Math_log (topRiskyApps data)) (generateHTMLContent Math_log t data)"
      unfolding generateHTMLContent_def by (rule sublist_concat_mem) simp
    with page that show ?thesis
      using sublist_order.order_trans by fastforce
  qed
  show ?thesis
    using page table inv doc
    by (simp add: script_app_ranked script_app_consumer prepareReportData_def parse_blob_def
        truthy_def pa)
qed

subsection \<open>Report Model Builder: the persisted blobs\<close>

text \<open>
  C2, as the claim states it, fails: the stored text \<^verbatim>\<open>undefined\<close> is present and is not
  JSON, and the construction of the report model fails with the SyntaxError of
  \<^verbatim>\<open>JSON.parse\<close>, whatever the rest of the parser does, for the settings blob and for the
  scan blob alike; the caller of \<^verbatim>\<open>generateReport\<close> receives that error, wrapped.
\<close>

theorem malformed_blob_aborts:
  "\<forall>Math_log g now dev t export.
     prepareReportData Math_log g now dev (Inr (Some ''undefined'')) (Inr None) [] = Inl SyntaxError
     \<and> prepareReportData Math_log g now dev (Inr None) (Inr (Some ''undefined'')) [] = Inl SyntaxError
     \<and> generateReport Math_log g now \<lparr>platform = ''ios'', osVersion = 17\<rparr> (Inr True)
           (Inr (Some ''undefined'')) (Inr None) t (export :: string \<Rightarrow> js_error + unit) []
         = Inl (GenerationFailed SyntaxError)"
  by (simp add: generateReport_def requestStoragePermission_def prepareReportData_def
      parse_blob_present parse_blob_absent JSON_parse_undefined)

text \<open>
  C2, amended. A blob that is absent (\<^verbatim>\<open>null\<close>) or empty is replaced by the empty object,
  and a blob that is present is what \<^verbatim>\<open>JSON.parse\<close> makes of it. When both blobs are read
  and parse, each is passed on as parsed, the settings as \<open>settings\<close> and the scan results as
  \<open>scanResults\<close>, and the construction fails only if the Permission Analyzer throws, with
  what it throws. A blob that is present and that \<^verbatim>\<open>JSON.parse\<close> rejects makes the
  construction fail with that error, the settings blob first, as does a rejected read;
  and when the storage permission is granted, \<^verbatim>\<open>generateReport\<close> throws that error,
  wrapped, to its caller.
\<close>

theorem prepareReportData_blobs:
  "parse_blob g None = Inr (JObject [])
   \<and> parse_blob g (Some []) = Inr (JObject [])
   \<and> (s \<noteq> [] \<longrightarrow> parse_blob g (Some s) = JSON_parse g s)
   \<and> (parse_blob g st = Inr v \<and> parse_blob g sc = Inr w \<and> analyzePermissions as = Inr pa \<longrightarrow>
      (\<exists>data. prepareReportData Math_log g now dev (Inr st) (Inr sc) as = Inr data
         \<and> settings data = v \<and> scanResults data = w \<and> apps data = as
         \<and> permissionAnalysis data = pa))
   \<and> (parse_blob g st = Inr v \<and> parse_blob g sc = Inr w \<and> analyzePermissions as = Inl e \<longrightarrow>
      prepareReportData Math_log g now dev (Inr st) (Inr sc) as = Inl e)
   \<and> (parse_blob g st = Inl e \<longrightarrow>
      prepareReportData Math_log g now dev (Inr st) (Inr sc) as = Inl e)
   \<and> (parse_blob g st = Inr v \<and> parse_blob g sc = Inl e \<longrightarrow>
      prepareReportData Math_log g now dev (Inr st) (Inr sc) as = Inl e)
   \<and> (s \<noteq> [] \<and> JSON_parse g s = Inl e \<longrightarrow>
      prepareReportData Math_log g now dev (Inr (Some s)) (Inr sc) as = Inl e)
   \<and> (s \<noteq> [] \<and> JSON_parse g s = Inl e \<and> parse_blob g st = Inr v \<longrightarrow>
      prepareReportData Math_log g now dev (Inr st) (Inr (Some s)) as = Inl e)
   \<and> prepareReportData Math_log g now dev (Inl e) scanItem as = Inl e
   \<and> prepareReportData Math_log g now dev (Inr st) (Inl e) as = Inl e
   \<and> (requestStoragePermission dev answer
        \<and> (parse_blob g st = Inl e \<or> parse_blob g st = Inr v \<and> parse_blob g sc = Inl e) \<longrightarrow>
      generateReport Math_log g now dev answer (Inr st) (Inr sc) t export as = Inl (GenerationFailed e))
   \<and> (s \<noteq> [] \<and> JSON_parse g s = Inl e \<and> requestStoragePermission dev answer \<longrightarrow>
      generateReport Math_log g now dev answer (Inr (Some s)) (Inr sc) t export as = Inl (GenerationFailed e))"
proof -
  have blob: "parse_blob g None = Inr (JObject [])" "parse_blob g (Some []) = Inr (JObject [])"
    "s \<noteq> [] \<longrightarrow> parse_blob g (Some s) = JSON_parse g s"
    by (simp_all add: parse_blob_absent parse_blob_present)
  have parsed: "\<exists>data. prepareReportData Math_log g now dev (Inr st) (Inr sc) as = Inr data
         \<and> settings data = v \<and> scanResults data = w \<and> apps data = as
         \<and> permissionAnalysis data = pa"
    if "parse_blob g st = Inr v" "parse_blob g sc = Inr w" "analyzePermissions as = Inr pa"
    using that by (simp add: prepareReportData_def)
  have analyzer: "prepareReportData Math_log g now dev (Inr st) (Inr sc) as = Inl e"
    if "parse_blob g st = Inr v" "parse_blob g sc = Inr w" "analyzePermissions as = Inl e"
    using that by (simp add: prepareReportData_def)
  have bad_first: "prepareReportData Math_log g now dev (Inr st) (Inr sc) as = Inl e"
    if "parse_blob g st = Inl e" for st sc
    using that by (simp add: prepareReportData_def)
  have bad_second: "prepareReportData Math_log g now dev (Inr st) (Inr sc) as = Inl e"
    if "parse_blob g st = Inr v" "parse_blob g sc = Inl e" for st sc
    using that by (simp add: prepareReportData_def)
  have bad_settings: "prepareReportData Math_log g now dev (Inr (Some s)) (Inr sc) as = Inl e"
    if "s \<noteq> []" "JSON_parse g s = Inl e"
    using that by (intro bad_first) (simp add: parse_blob_present)
  have bad_scan: "prepareReportData Math_log g now dev (Inr st) (Inr (Some s)) as = Inl e"
    if "s \<noteq> []" "JSON_parse g s = Inl e" "parse_blob g st = Inr v"
    using that by (intro bad_second) (simp_all add: parse_blob_present)
  have rejected: "prepareReportData Math_log g now dev (Inl e) scanItem as = Inl e"
    "prepareReportData Math_log g now dev (Inr st) (Inl e) as = Inl e"
    by (simp_all add: prepareReportData_def)
  have wrapped: "generateReport Math_log g now dev answer (Inr st) (Inr sc) t export as
      = Inl (GenerationFailed e)"
    if "requestStoragePermission dev answer"
      "parse_blob g st = Inl e \<or> parse_blob g st = Inr v \<and> parse_blob g sc = Inl e"
    using that bad_first [of st sc] bad_second [of st sc]
    by (auto simp: generateReport_permitted)
  have wrapped_settings: "generateReport Math_log g now dev answer (Inr (Some s)) (Inr sc) t export as
      = Inl (GenerationFailed e)"
    if "s \<noteq> []" "JSON_parse g s = Inl e" "requestStoragePermission dev answer"
    using bad_settings [OF that(1,2)] that(3) by (simp add: generateReport_permitted)
  show ?thesis
    using blob parsed analyzer bad_first [of st sc] bad_second [of st sc] bad_settings bad_scan
      rejected wrapped wrapped_settings
    by blast
qed

theorem prepareReportData_blobs_witness:
  "parse_blob tiny_json (Some ''null'') = Inr JNull
   \<and> parse_blob tiny_json (Some ''[]'') = Inr (JArray [])
   \<and> (\<exists>pa. analyzePermissions [script_app] = Inr pa)
   \<and> (\<exists>data. prepareReportData sample_log tiny_json 0 \<lparr>platform = ''android'', osVersion = 33\<rparr>
        (Inr (Some ''null'')) (Inr (Some ''[]'')) [script_app] = Inr data
      \<and> settings data = JNull \<and> scanResults data = JArray [] \<and> apps data = [script_app])
   \<and> (\<exists>data. prepareReportData sample_log tiny_json 0 \<lparr>platform = ''android'', osVersion = 33\<rparr>
        (Inr (Some ''[]'')) (Inr None) [script_app] = Inr data
      \<and> settings data = JArray [] \<and> scanResults data = JObject [] \<and> apps data = [script_app])
   \<and> analyzePermissions [factor_app None] = Inl TypeError
   \<and> prepareReportData sample_log tiny_json 0 \<lparr>platform = ''android'', osVersion = 33\<rparr>
        (Inr (Some ''null'')) (Inr (Some ''[]'')) [factor_app None] = Inl TypeError
   \<and> parse_blob tiny_json (Some ''<html>'') = Inl SyntaxError
   \<and> prepareReportData sample_log tiny_json 0 \<lparr>platform = ''android'', osVersion = 33\<rparr>
        (Inr (Some ''<html>'')) (Inr None) [script_app] = Inl SyntaxError
   \<and> prepareReportData sample_log tiny_json 0 \<lparr>platform = ''android'', osVersion = 33\<rparr>
        (Inr (Some ''null'')) (Inr (Some ''<html>'')) [script_app] = Inl SyntaxError
   \<and> requestStoragePermission \<lparr>platform = ''android'', osVersion = 33\<rparr> (Inl StorageError)
   \<and> generateReport sample_log tiny_json 0 \<lparr>platform = ''android'', osVersion = 33\<rparr> (Inl StorageError)
        (Inr (Some ''<html>'')) (Inr None) bare_layout (\<lambda>html. Inr html) [script_app]
       = Inl (GenerationFailed SyntaxError)
   \<and> generateReport sample_log tiny_json 0 \<lparr>platform = ''android'', osVersion = 33\<rparr> (Inl StorageError)
        (Inr (Some ''null'')) (Inr (Some ''<html>'')) bare_layout (\<lambda>html. Inr html) [script_app]
       = Inl (GenerationFailed SyntaxError)"
proof -
  let ?dev = "\<lparr>platform = ''android'', osVersion = 33\<rparr>"
  let ?out = "\<lambda>html::string. (Inr html :: js_error + string)"
  have ok: "list_all (\<lambda>a. list_all known_level (app_factors a)) [script_app]"
    by (simp add: script_app_def blank_app_def analysis_def app_factors_def or_empty_def)
  then obtain pa where pa: "analyzePermissions [script_app] = Inr pa"
    using forEach_analyze_known [OF ok, of "[]" "\<lparr>HIGH = [], MEDIUM = [], LOW = []\<rparr>"]
    by (auto simp: analyzePermissions_def)
  have "\<not> list_all (\<lambda>a. list_all known_level (app_factors a)) [factor_app None]"
    by (simp add: factor_app_def blank_app_def app_factors_def or_empty_def known_level_def)
  then have "forEach analyze_app ([], \<lparr>HIGH = [], MEDIUM = [], LOW = []\<rparr>) [factor_app None]
      = Inl TypeError"
    by (rule forEach_analyze_unknown)
  then have throws: "analyzePermissions [factor_app None] = Inl TypeError"
    by (simp add: analyzePermissions_def)
  have null: "parse_blob tiny_json (Some ''null'') = Inr JNull"
    and arr: "parse_blob tiny_json (Some ''[]'') = Inr (JArray [])"
    and none: "parse_blob tiny_json None = Inr (JObject [])"
    and html: "parse_blob tiny_json (Some ''<html>'') = Inl SyntaxError"
    and html': "JSON_parse tiny_json ''<html>'' = Inl SyntaxError"
    by (simp_all add: parse_blob_present parse_blob_absent JSON_parse_def is_ws_def tiny_json_def)
  have perm: "requestStoragePermission ?dev (Inl StorageError)"
    by (simp add: requestStoragePermission_def)
  note inst = prepareReportData_blobs [where Math_log = sample_log and g = tiny_json and now = 0
      and dev = ?dev and answer = "Inl StorageError" and t = bare_layout and export = ?out
      and scanItem = "Inr None" and s = "''<html>''"]
  have 1: "\<exists>data. prepareReportData sample_log tiny_json 0 ?dev (Inr (Some ''null''))
        (Inr (Some ''[]'')) [script_app] = Inr data
      \<and> settings data = JNull \<and> scanResults data = JArray [] \<and> apps data = [script_app]"
    using inst [where as = "[script_app]" and pa = pa and st = "Some ''null''" and sc = "Some ''[]''"
        and v = JNull and w = "JArray []" and e = SyntaxError] null arr pa
    by blast
  have 2: "\<exists>data. prepareReportData sample_log tiny_json 0 ?dev (Inr (Some ''[]''))
        (Inr None) [script_app] = Inr data
      \<and> settings data = JArray [] \<and> scanResults data = JObject [] \<and> apps data = [script_app]"
    using inst [where as = "[script_app]" and pa = pa and st = "Some ''[]''" and sc = None
        and v = "JArray []" and w = "JObject []" and e = SyntaxError] arr none pa
    by blast
  have 3: "prepareReportData sample_log tiny_json 0 ?dev (Inr (Some ''null'')) (Inr (Some ''[]''))
        [factor_app None] = Inl TypeError"
    using inst [where as = "[factor_app None]" and pa = pa and st = "Some ''null''"
        and sc = "Some ''[]''" and v = JNull and w = "JArray []" and e = TypeError] null arr throws
    by blast
  have 4: "prepareReportData sample_log tiny_json 0 ?dev (Inr (Some ''<html>'')) (Inr None)
        [script_app] = Inl SyntaxError"
    "generateReport sample_log tiny_json 0 ?dev (Inl StorageError) (Inr (Some ''<html>'')) (Inr None)
        bare_layout ?out [script_app] = Inl (GenerationFailed SyntaxError)"
    using inst [where as = "[script_app]" and pa = pa and st = "Some ''<html>''" and sc = None
        and v = JNull and w = "JObject []" and e = SyntaxError] html perm
    by blast+
  have 5: "prepareReportData sample_log tiny_json 0 ?dev (Inr (Some ''null'')) (Inr (Some ''<html>''))
        [script_app] = Inl SyntaxError"
    "generateReport sample_log tiny_json 0 ?dev (Inl StorageError) (Inr (Some ''null''))
        (Inr (Some ''<html>'')) bare_layout ?out [script_app] = Inl (GenerationFailed SyntaxError)"
    using inst [where as = "[script_app]" and pa = pa and st = "Some ''null''"
        and sc = "Some ''<html>''" and v = JNull and w = "JObject []" and e = SyntaxError]
      null html perm
    by blast+
  from null arr pa 1 2 throws 3 html 4 5 perm show ?thesis by blast
qed

subsection \<open>Binary64 rounding\<close>

text \<open>
  What makes \<open>fl\<close> the rounding of IEEE 754: it keeps every number of at most 53
  significant bits, it is monotone, and it moves a number by at most half a unit in the
  last place.
\<close>

lemma pow2_powi: "pow2 e = 2 powi e"
  by (simp add: pow2_def power_int_def inverse_eq_divide power_one_over)

lemma pow2_pos: "0 < pow2 e"
  by (simp add: pow2_powi)

lemma pow2_add: "pow2 (a + b) = pow2 a * pow2 b"
  by (simp add: pow2_powi power_int_add)

lemma pow2_diff: "pow2 (a - b) = pow2 a / pow2 b"
  using pow2_add [of "a - b" b] pow2_pos [of b] by (simp add: field_simps)

lemma pow2_mono: "a \<le> b \<Longrightarrow> pow2 a \<le> pow2 b"
  by (simp add: pow2_powi power_int_increasing)

lemma pow2_strict_mono: "a < b \<Longrightarrow> pow2 a < pow2 b"
  by (simp add: pow2_powi power_int_strict_increasing)

lemma pow2_less_cancel: "pow2 a < pow2 b \<Longrightarrow> a < b"
  using pow2_mono [of b a] by (cases "a < b") auto

lemma pow2_nat: "pow2 (int n) = 2 ^ n"
  by (simp add: pow2_def)

lemma pow2_0: "pow2 0 = 1"
  by (simp add: pow2_def)

lemma pow2_Suc: "pow2 (e + 1) = 2 * pow2 e"
proof -
  have "pow2 1 = 2" by (simp add: pow2_def)
  then show ?thesis by (simp add: pow2_add)
qed

lemma pow2_shift: "pow2 (e - int n) * 2 ^ n = pow2 e"
  using pow2_add [of "e - int n" "int n"] by (simp add: pow2_nat)

lemma pow2_shift1: "pow2 (e - int n) * 2 ^ Suc n = pow2 (e + 1)"
  using pow2_shift [of e n] by (simp add: pow2_Suc)

lemma bitlen_pow2:
  assumes "0 < p"
  shows "pow2 (bitlen p - 1) \<le> of_int p" and "of_int p < pow2 (bitlen p)"
proof -
  from bitlen_bounds [OF assms]
  have lo: "2 ^ nat (bitlen p - 1) \<le> p" and hi: "p < 2 ^ nat (bitlen p)" by simp_all
  have b1: "1 \<le> bitlen p"
  proof (rule ccontr)
    assume "\<not> 1 \<le> bitlen p"
    then have "nat (bitlen p) = 0" by simp
    with hi assms show False by simp
  qed
  have "(of_int (2 ^ nat (bitlen p - 1)) :: rat) \<le> of_int p"
    using lo by (simp only: of_int_le_iff)
  then show "pow2 (bitlen p - 1) \<le> of_int p"
    using b1 by (simp add: pow2_def)
  have "(of_int p :: rat) < of_int (2 ^ nat (bitlen p))"
    using hi by (simp only: of_int_less_iff)
  then show "of_int p < pow2 (bitlen p)"
    using b1 by (simp add: pow2_def)
qed

lemma binade_bounds:
  assumes "0 < x"
  shows "pow2 (binade x) \<le> x" and "x < pow2 (binade x + 1)"
proof -
  obtain p q where pq: "quotient_of x = (p, q)" by (cases "quotient_of x")
  have q: "0 < q" by (rule quotient_of_denom_pos [OF pq])
  have x: "x = of_int p / of_int q" by (rule quotient_of_div [OF pq])
  have p: "0 < p"
    using assms q by (simp add: x zero_less_divide_iff)
  let ?e = "bitlen p - bitlen q"
  have "x < pow2 (bitlen p) / pow2 (bitlen q - 1)"
    unfolding x using bitlen_pow2 [OF p] bitlen_pow2 [OF q] p q pow2_pos [of "bitlen q - 1"]
    by (intro frac_less) simp_all
  then have hi: "x < pow2 (?e + 1)"
    by (simp add: pow2_diff [symmetric] algebra_simps)
  have "pow2 (bitlen p - 1) / pow2 (bitlen q) < x"
    unfolding x using bitlen_pow2 [OF p] bitlen_pow2 [OF q] p q pow2_pos [of "bitlen p - 1"]
    by (intro frac_less2) simp_all
  then have lo: "pow2 (?e - 1) < x"
    by (simp add: pow2_diff [symmetric] algebra_simps)
  have b: "binade x = (if pow2 ?e \<le> x then ?e else ?e - 1)"
    by (simp add: binade_def pq Let_def)
  show "pow2 (binade x) \<le> x"
    using lo by (simp add: b)
  show "x < pow2 (binade x + 1)"
    using hi by (auto simp: b)
qed

lemma binade_unique:
  assumes "pow2 e \<le> x" "x < pow2 (e + 1)"
  shows "binade x = e"
proof -
  have x: "0 < x" using assms(1) pow2_pos [of e] by linarith
  from binade_bounds [OF x] have b: "pow2 (binade x) \<le> x" "x < pow2 (binade x + 1)" .
  have "pow2 e < pow2 (binade x + 1)" using assms(1) b(2) by linarith
  then have 1: "e < binade x + 1" by (rule pow2_less_cancel)
  have "pow2 (binade x) < pow2 (e + 1)" using assms(2) b(1) by linarith
  then have 2: "binade x < e + 1" by (rule pow2_less_cancel)
  from 1 2 show ?thesis by linarith
qed

lemma binade_mono:
  assumes "0 < x" "x \<le> y"
  shows "binade x \<le> binade y"
proof (rule ccontr)
  assume "\<not> ?thesis"
  then have "binade y + 1 \<le> binade x" by simp
  then have "pow2 (binade y + 1) \<le> pow2 (binade x)" by (rule pow2_mono)
  moreover have "pow2 (binade x) \<le> x" using binade_bounds(1) [OF assms(1)] .
  moreover have "y < pow2 (binade y + 1)" using binade_bounds(2) [of y] assms by simp
  ultimately show False using assms(2) by linarith
qed

lemma round_ties_even_int: "round_ties_even (of_int k) = k"
  by (simp add: round_ties_even_def)

lemma round_ties_even_cases:
  "round_ties_even x = \<lfloor>x\<rfloor> \<or> round_ties_even x = \<lfloor>x\<rfloor> + 1"
  by (simp add: round_ties_even_def Let_def)

lemma round_ties_even_error: "\<bar>of_int (round_ties_even x) - x\<bar> \<le> 1 / 2"
proof -
  have "of_int \<lfloor>x\<rfloor> \<le> x" "x < of_int \<lfloor>x\<rfloor> + 1" by linarith+
  then show ?thesis
    by (auto simp: round_ties_even_def Let_def abs_le_iff)
qed

lemma round_ties_even_mono:
  assumes "x \<le> y"
  shows "round_ties_even x \<le> round_ties_even y"
proof (cases "\<lfloor>x\<rfloor> = \<lfloor>y\<rfloor>")
  case True
  with assms show ?thesis
    by (auto simp: round_ties_even_def Let_def)
next
  case False
  with assms have "\<lfloor>x\<rfloor> + 1 \<le> \<lfloor>y\<rfloor>"
    using floor_mono [OF assms] by linarith
  moreover have "round_ties_even x \<le> \<lfloor>x\<rfloor> + 1"
    using round_ties_even_cases [of x] by linarith
  moreover have "\<lfloor>y\<rfloor> \<le> round_ties_even y"
    using round_ties_even_cases [of y] by linarith
  ultimately show ?thesis by linarith
qed

text \<open>For a positive number the scaled value lies between \<open>2 ^ 52\<close> and \<open>2 ^ 53\<close>.\<close>

lemma scaled_bounds:
  assumes "0 < x"
  shows "2 ^ 52 \<le> x / pow2 (binade x - 52)" and "x / pow2 (binade x - 52) < 2 ^ 53"
proof -
  have e: "pow2 (binade x) = pow2 (binade x - 52) * 2 ^ 52"
    using pow2_shift [of "binade x" 52] by simp
  have e1: "pow2 (binade x + 1) = pow2 (binade x - 52) * 2 ^ 53"
    using pow2_shift1 [of "binade x" 52] by simp
  show "2 ^ 52 \<le> x / pow2 (binade x - 52)"
    using binade_bounds(1) [OF assms] pow2_pos [of "binade x - 52"]
    by (simp add: e pos_le_divide_eq mult.commute)
  show "x / pow2 (binade x - 52) < 2 ^ 53"
    using binade_bounds(2) [OF assms] pow2_pos [of "binade x - 52"]
    by (simp add: e1 pos_divide_less_eq mult.commute)
qed

lemma fl_positive:
  "0 < x \<Longrightarrow> fl x = of_int (round_ties_even (x / pow2 (binade x - 52))) * pow2 (binade x - 52)"
  by (simp add: fl_def Let_def)

text \<open>A number with at most 53 significant bits is not changed.\<close>

lemma fl_exact:
  assumes "0 < k" "k < 2 ^ 53"
  shows "fl (of_int k * pow2 j) = of_int k * pow2 j"
proof -
  let ?x = "of_int k * pow2 j :: rat"
  have x: "0 < ?x" using assms(1) pow2_pos [of j] by simp
  have "?x < 2 ^ 53 * pow2 j"
  proof -
    have "(of_int k :: rat) < of_int (2 ^ 53)" using assms(2) by (simp only: of_int_less_iff)
    then show ?thesis using pow2_pos [of j] by simp
  qed
  also have "\<dots> = pow2 (53 + j)"
    using pow2_add [of 53 j] pow2_nat [of 53] by simp
  finally have "pow2 (binade ?x) < pow2 (53 + j)"
    using binade_bounds(1) [OF x] by linarith
  then have "binade ?x < 53 + j" by (rule pow2_less_cancel)
  then have d: "0 \<le> j - (binade ?x - 52)" by simp
  have "?x / pow2 (binade ?x - 52) = of_int k * pow2 (j - (binade ?x - 52))"
    by (simp add: pow2_diff)
  also have "\<dots> = of_int (k * 2 ^ nat (j - (binade ?x - 52)))"
    using d by (simp add: pow2_def)
  finally have m: "?x / pow2 (binade ?x - 52) = of_int (k * 2 ^ nat (j - (binade ?x - 52)))" .
  have "fl ?x = of_int (k * 2 ^ nat (j - (binade ?x - 52))) * pow2 (binade ?x - 52)"
    unfolding fl_positive [OF x] m round_ties_even_int ..
  also have "\<dots> = ?x / pow2 (binade ?x - 52) * pow2 (binade ?x - 52)"
    unfolding m ..
  also have "\<dots> = ?x" using pow2_pos [of "binade ?x - 52"] by simp
  finally show ?thesis .
qed

lemma fl_nonneg: "0 \<le> x \<Longrightarrow> 0 \<le> fl x"
proof (cases "x = 0")
  case True
  then show ?thesis by (simp add: fl_def)
next
  case False
  assume "0 \<le> x"
  with False have x: "0 < x" by simp
  have "0 \<le> round_ties_even (x / pow2 (binade x - 52))"
    using round_ties_even_mono [of "of_int 0" "x / pow2 (binade x - 52)"] scaled_bounds(1) [OF x]
    by (simp add: round_ties_even_int [of 0, simplified])
  then show ?thesis
    using pow2_pos [of "binade x - 52"] by (simp add: fl_positive [OF x])
qed

lemma fl_bounds:
  assumes "0 < x"
  shows "pow2 (binade x) \<le> fl x" and "fl x \<le> pow2 (binade x + 1)"
proof -
  let ?e = "binade x - 52"
  let ?m = "x / pow2 ?e"
  have "round_ties_even (of_int (2 ^ 52)) \<le> round_ties_even ?m"
    using scaled_bounds(1) [OF assms] by (intro round_ties_even_mono) simp
  then have lo: "(2 ^ 52 :: rat) \<le> of_int (round_ties_even ?m)"
    unfolding round_ties_even_int by (metis of_int_le_iff of_int_numeral of_int_power)
  have "round_ties_even ?m \<le> round_ties_even (of_int (2 ^ 53))"
    using scaled_bounds(2) [OF assms] by (intro round_ties_even_mono) simp
  then have hi: "of_int (round_ties_even ?m) \<le> (2 ^ 53 :: rat)"
    unfolding round_ties_even_int by (metis of_int_le_iff of_int_numeral of_int_power)
  have e: "pow2 (binade x) = 2 ^ 52 * pow2 ?e"
    using pow2_shift [of "binade x" 52] by (simp add: mult.commute)
  have e1: "pow2 (binade x + 1) = 2 ^ 53 * pow2 ?e"
    using pow2_shift1 [of "binade x" 52] by (simp add: mult.commute)
  show "pow2 (binade x) \<le> fl x"
    unfolding fl_positive [OF assms] e using lo pow2_pos [of ?e] by (intro mult_right_mono) simp_all
  show "fl x \<le> pow2 (binade x + 1)"
    unfolding fl_positive [OF assms] e1 using hi pow2_pos [of ?e] by (intro mult_right_mono) simp_all
qed

lemma fl_mono:
  assumes "0 < x" "x \<le> y"
  shows "fl x \<le> fl y"
proof (cases "binade x = binade y")
  case True
  have y: "0 < y" using assms by simp
  have "x / pow2 (binade y - 52) \<le> y / pow2 (binade y - 52)"
    using assms(2) pow2_pos [of "binade y - 52"] by (simp add: divide_right_mono)
  then have "round_ties_even (x / pow2 (binade y - 52)) \<le> round_ties_even (y / pow2 (binade y - 52))"
    by (rule round_ties_even_mono)
  then show ?thesis
    unfolding fl_positive [OF assms(1)] fl_positive [OF y] True
    using pow2_pos [of "binade y - 52"] by (intro mult_right_mono) simp_all
next
  case False
  have y: "0 < y" using assms by simp
  from False binade_mono [OF assms] have "binade x + 1 \<le> binade y" by simp
  then have "pow2 (binade x + 1) \<le> pow2 (binade y)" by (rule pow2_mono)
  with fl_bounds(2) [OF assms(1)] fl_bounds(1) [OF y] show ?thesis by linarith
qed

text \<open>The error of one rounding is at most half a unit in the last place.\<close>

lemma fl_error:
  assumes "0 < x"
  shows "\<bar>fl x - x\<bar> \<le> pow2 (binade x - 53)"
proof -
  let ?e = "binade x - 52"
  let ?m = "x / pow2 ?e"
  have "fl x - x = (of_int (round_ties_even ?m) - ?m) * pow2 ?e"
    using pow2_pos [of ?e] by (simp add: fl_positive [OF assms] algebra_simps)
  then have "\<bar>fl x - x\<bar> = \<bar>of_int (round_ties_even ?m) - ?m\<bar> * pow2 ?e"
    using pow2_pos [of ?e] by (simp add: abs_mult)
  also have "\<dots> \<le> 1 / 2 * pow2 ?e"
    using round_ties_even_error [of ?m] pow2_pos [of ?e] by (intro mult_right_mono) simp_all
  also have "\<dots> = pow2 (binade x - 53)"
    using pow2_Suc [of "binade x - 53"] by simp
  finally show ?thesis .
qed


subsection \<open>Where the rounding changes nothing\<close>





text \<open>
  One rounded quotient of counts, then \<^verbatim>\<open>Math.round\<close>: the result is the exact quotient
  rounded half up, as long as the divisor stays below \<open>2 ^ 26\<close> and the quotient below
  \<open>2 ^ 25\<close>.
\<close>

lemma Math_round_fl_quotient:
  fixes p n :: int
  assumes n: "0 < n" "n \<le> 2 ^ 26" and p: "0 \<le> p" "p < 2 ^ 25 * n"
  shows "Math_round (fl (of_int p / of_int n)) = Math_round (of_int p / of_int n)"
proof (cases "p = 0")
  case True
  then show ?thesis by (simp add: fl_def)
next
  case False
  let ?x = "of_int p / of_int n :: rat"
  let ?k = "Math_round ?x"
  have x: "0 < ?x" using False n p by simp
  have xlt: "?x < 2 ^ 25"
  proof -
    have "(of_int p :: rat) < of_int (2 ^ 25 * n)" using p by (simp only: of_int_less_iff)
    then show ?thesis using n by (simp add: pos_divide_less_eq)
  qed
  have k_le: "of_int ?k \<le> ?x + 1 / 2" and k_gt: "?x + 1 / 2 < of_int ?k + 1"
    unfolding Math_round_def by linarith+
  have k0: "0 \<le> ?k" using x unfolding Math_round_def by simp
  have k25: "?k \<le> 2 ^ 25"
  proof -
    have "(of_int ?k :: rat) < 2 ^ 25 + 1" using k_le xlt by linarith
    then have "(of_int ?k :: rat) < of_int (2 ^ 25 + 1)" by simp
    then have "?k < 2 ^ 25 + 1" by (simp only: of_int_less_iff)
    then show ?thesis by simp
  qed
  have lower: "of_int ?k \<le> fl ?x + 1 / 2"
  proof (cases "?k = 0")
    case True
    then show ?thesis using fl_nonneg [of ?x] x by simp
  next
    case False
    with k0 have k1: "1 \<le> ?k" by simp
    define y :: rat where "y = of_int (2 * ?k - 1) * pow2 (- 1)"
    have y: "y = of_int ?k - 1 / 2" by (simp add: y_def pow2_def algebra_simps)
    have y0: "0 < y"
    proof -
      have "(of_int 1 :: rat) \<le> of_int ?k" using k1 by (simp only: of_int_le_iff)
      then show ?thesis by (simp add: y)
    qed
    have "fl y = y" unfolding y_def using k1 k25 by (intro fl_exact) simp_all
    moreover have "fl y \<le> fl ?x"
      using y0 k_le by (intro fl_mono) (simp_all add: y)
    ultimately show ?thesis by (simp add: y)
  qed
  have "(of_int (2 * p + n) :: rat) < of_int (2 * n * (?k + 1))"
    using k_gt n by (simp add: field_simps)
  then have "2 * p + n < 2 * n * (?k + 1)"
    by (simp only: of_int_less_iff)
  then have "2 * p + n + 1 \<le> 2 * n * (?k + 1)" by simp
  then have "(of_int (2 * p + n + 1) :: rat) \<le> of_int (2 * n * (?k + 1))"
    by (simp only: of_int_le_iff)
  then have gap: "?x \<le> of_int ?k + 1 / 2 - 1 / (2 * of_int n)"
    using n by (simp add: field_simps)
  have "(of_int n :: rat) \<le> of_int (2 ^ 26)" using n by (simp only: of_int_le_iff)
  then have "1 / (2 * 2 ^ 26) \<le> 1 / (2 * of_int n :: rat)"
    using n by (intro divide_left_mono) simp_all
  then have xz: "?x \<le> of_int ?k + 1 / 2 - 1 / 2 ^ 27"
    using gap by simp
  define z :: rat where "z = of_int ((2 * ?k + 1) * 2 ^ 26 - 1) * pow2 (- 27)"
  have z: "z = of_int ?k + 1 / 2 - 1 / 2 ^ 27" by (simp add: z_def pow2_def algebra_simps)
  have "fl z = z" unfolding z_def using k0 k25 by (intro fl_exact) simp_all
  moreover have "fl ?x \<le> fl z"
    using x xz by (intro fl_mono) (simp_all add: z)
  ultimately have upper: "fl ?x + 1 / 2 < of_int ?k + 1" by (simp add: z)
  have "\<lfloor>fl ?x + 1 / 2\<rfloor> = ?k"
    using lower upper by (intro floor_unique) simp_all
  then show ?thesis by (simp add: Math_round_def)
qed


text \<open>
  Two roundings, then \<^verbatim>\<open>Math.round\<close>: the percentage of \<open>h\<close> among \<open>n\<close>. The result is the exact
  percentage rounded half up unless that percentage lies exactly half way between two
  integers; there it is that integer or the one below.
\<close>

lemma percentage_error:
  fixes h n :: int
  assumes n: "0 < n" and h: "0 < h" "h \<le> n"
  shows "\<bar>fl (fl (of_int h / of_int n) * 100) - 100 * of_int h / of_int n\<bar> \<le> 1 / 2 ^ 45"
proof -
  let ?x = "of_int h / of_int n :: rat"
  have x: "0 < ?x" "?x \<le> 1" using n h by simp_all
  have bx: "binade ?x \<le> 0"
  proof -
    have "pow2 (binade ?x) < pow2 1"
      using binade_bounds(1) [OF x(1)] x(2) by (simp add: pow2_def [of 1])
    then have "binade ?x < 1" by (rule pow2_less_cancel)
    then show ?thesis by simp
  qed
  have e1: "\<bar>fl ?x - ?x\<bar> \<le> 1 / 2 ^ 53"
  proof -
    have "pow2 (binade ?x - 53) \<le> pow2 (- 53)" using bx by (intro pow2_mono) simp
    then show ?thesis using fl_error [OF x(1)] by (simp add: pow2_def [of "- 53"])
  qed
  let ?w = "fl ?x * 100"
  have y0: "0 < fl ?x" using fl_bounds(1) [OF x(1)] pow2_pos [of "binade ?x"] by linarith
  have y1: "fl ?x \<le> 1"
  proof -
    have "fl ?x \<le> fl 1" using x by (intro fl_mono)
    moreover have "fl 1 = (1::rat)" using fl_exact [of 1 0] by (simp add: pow2_def)
    ultimately show ?thesis by simp
  qed
  have w: "0 < ?w" "?w \<le> 100" using y0 y1 by simp_all
  have bw: "binade ?w \<le> 6"
  proof -
    have "pow2 (binade ?w) < pow2 7"
      using binade_bounds(1) [OF w(1)] w(2) by (simp add: pow2_def [of 7])
    then have "binade ?w < 7" by (rule pow2_less_cancel)
    then show ?thesis by simp
  qed
  have e2: "\<bar>fl ?w - ?w\<bar> \<le> 1 / 2 ^ 47"
  proof -
    have "pow2 (binade ?w - 53) \<le> pow2 (- 47)" using bw by (intro pow2_mono) simp
    then show ?thesis using fl_error [OF w(1)] by (simp add: pow2_def [of "- 47"])
  qed
  have "?w - 100 * ?x = 100 * (fl ?x - ?x)" by (simp add: algebra_simps)
  then have "\<bar>?w - 100 * ?x\<bar> = 100 * \<bar>fl ?x - ?x\<bar>" by (simp only: abs_mult)
  then have e3: "\<bar>?w - 100 * ?x\<bar> \<le> 100 / 2 ^ 53" using e1 by simp
  have "\<bar>fl ?w - 100 * ?x\<bar> \<le> \<bar>fl ?w - ?w\<bar> + \<bar>?w - 100 * ?x\<bar>" by simp
  also have "\<dots> \<le> 1 / 2 ^ 47 + 100 / 2 ^ 53" using e2 e3 by linarith
  also have "\<dots> \<le> 1 / 2 ^ 45" by simp
  finally show ?thesis by simp
qed

lemma percentage_rounding:
  fixes h n :: int
  assumes n: "0 < n" "n \<le> 2 ^ 40" and h: "0 \<le> h" "h \<le> n"
  shows "((200 * h + n) mod (2 * n) \<noteq> 0 \<longrightarrow>
          Math_round (fl (fl (of_int h / of_int n) * 100)) = Math_round (100 * of_int h / of_int n))
       \<and> (Math_round (fl (fl (of_int h / of_int n) * 100)) = Math_round (100 * of_int h / of_int n)
          \<or> Math_round (fl (fl (of_int h / of_int n) * 100)) = Math_round (100 * of_int h / of_int n) - 1)"
proof (cases "h = 0")
  case True
  then show ?thesis by (simp add: fl_def)
next
  case False
  with h have h0: "0 < h" by simp
  define t :: rat where "t = 100 * of_int h / of_int n"
  define v :: rat where "v = fl (fl (of_int h / of_int n) * 100)"
  define N where "N = 200 * h + n"
  define R where "R = N div (2 * n)"
  define r where "r = N mod (2 * n)"
  have err: "\<bar>v - t\<bar> \<le> 1 / 2 ^ 45"
    unfolding v_def t_def by (rule percentage_error [OF n(1) h0 h(2)])
  have tN: "t + 1 / 2 = of_int N / of_int (2 * n)"
    using n by (simp add: t_def N_def field_simps)
  have split: "N = 2 * n * R + r" "0 \<le> r" "r < 2 * n"
    using n by (simp_all add: R_def r_def)
  have "of_int N = of_int (2 * n) * of_int R + (of_int r :: rat)"
    by (simp only: split(1) of_int_add of_int_mult)
  then have tR: "t + 1 / 2 = of_int R + of_int r / of_int (2 * n)"
    using n by (simp add: tN field_simps)
  have R: "Math_round t = R"
  proof -
    have "0 \<le> of_int r / (of_int (2 * n) :: rat)" using split n by simp
    moreover have "of_int r / (of_int (2 * n) :: rat) < 1"
      using split n by (simp add: pos_divide_less_eq)
    ultimately show ?thesis
      unfolding Math_round_def tR by (intro floor_unique) simp_all
  qed
  define dl :: rat where "dl = 1 / 2 ^ 45"
  define d :: rat where "d = 1 / of_int (2 * n)"
  define q :: rat where "q = of_int r / of_int (2 * n)"
  have err1: "v - t \<le> dl" and err2: "t - v \<le> dl"
    using abs_le_D1 [OF err] abs_le_D2 [OF err] by (simp_all add: dl_def)
  have tq: "t + 1 / 2 = of_int R + q" using tR by (simp add: q_def)
  have small: "dl < d"
  proof -
    have "(of_int (2 * n) :: rat) \<le> of_int (2 ^ 41)" using n by (simp only: of_int_le_iff) simp
    then have "(of_int (2 * n) :: rat) < 2 ^ 45" by simp
    then show ?thesis unfolding dl_def d_def using n by (intro divide_strict_left_mono) simp_all
  qed
  have dl0: "0 < dl" "dl < 1" by (simp_all add: dl_def)
  have tie_free: "Math_round v = R" if "r \<noteq> 0"
  proof -
    from that split have r1: "1 \<le> r" "r \<le> 2 * n - 1" by simp_all
    have "(of_int 1 :: rat) \<le> of_int r" using r1(1) by (simp only: of_int_le_iff)
    then have lo: "d \<le> q"
      unfolding d_def q_def using n by (intro divide_right_mono) simp_all
    have "(of_int r :: rat) \<le> of_int (2 * n - 1)" using r1(2) by (simp only: of_int_le_iff)
    then have "q \<le> of_int (2 * n - 1) / of_int (2 * n)"
      unfolding q_def using n by (intro divide_right_mono) simp_all
    also have "\<dots> = 1 - d"
      using n by (simp add: d_def field_simps)
    finally have hi: "q \<le> 1 - d" .
    have "of_int R \<le> v + 1 / 2" "v + 1 / 2 < of_int R + 1"
      using err1 err2 small lo hi tq by linarith+
    then show ?thesis
      unfolding Math_round_def by (intro floor_unique) simp_all
  qed
  have near: "Math_round v = R \<or> Math_round v = R - 1"
  proof (cases "r = 0")
    case False
    then show ?thesis using tie_free by simp
  next
    case True
    then have "t + 1 / 2 = of_int R" using tq by (simp add: q_def)
    then have "of_int (R - 1) \<le> v + 1 / 2" "v + 1 / 2 < of_int (R + 1)"
      using err1 err2 dl0 by simp_all
    then have "R - 1 \<le> \<lfloor>v + 1 / 2\<rfloor>" "\<lfloor>v + 1 / 2\<rfloor> < R + 1"
      by (simp_all only: le_floor_iff floor_less_iff)
    then show ?thesis unfolding Math_round_def by linarith
  qed
  show ?thesis
    using tie_free near unfolding R [symmetric] v_def t_def r_def N_def by simp
qed

subsection \<open>Deduplication\<close>

lemma set_foldl_push_new: "set (foldl push_new acc xs) = set acc \<union> set xs"
  by (induction xs arbitrary: acc) (auto simp: push_new_def)

lemma distinct_foldl_push_new: "distinct acc \<Longrightarrow> distinct (foldl push_new acc xs)"
  by (induction xs arbitrary: acc) (auto simp: push_new_def)

lemma set_unique: "set (unique xs) = set xs"
  by (simp add: unique_def set_foldl_push_new)

lemma distinct_unique: "distinct (unique xs)"
  by (simp add: unique_def distinct_foldl_push_new)

lemma length_unique: "length (unique xs) = card (set xs)"
  using distinct_card [OF distinct_unique [of xs]] by (simp add: set_unique)

subsection \<open>Statistics Aggregator\<close>

text \<open>
  C6, as the claim states it, fails where binary64 arithmetic and exact arithmetic part.
  With 23 apps of high risk among 40 the exact value is 57.5, which rounds half up to 58;
  the quotient \<^verbatim>\<open>23 / 40\<close> is a binary64 number just below 0.575, its product with 100 is
  57.49999999999999, and the code returns 57.
\<close>

theorem riskPercentage_23_of_40:
  "(\<forall>Math_log.
      highRisk (calculateStatistics Math_log (replicate 23 high_app @ replicate 17 blank_app)) = 23
      \<and> totalApps (calculateStatistics Math_log (replicate 23 high_app @ replicate 17 blank_app)) = 40
      \<and> riskPercentage (calculateStatistics Math_log (replicate 23 high_app @ replicate 17 blank_app)) = 57)
   \<and> Math_round (23 / 40 * 100) = 58"
proof -
  define xs where "xs = replicate 23 high_app @ replicate 17 blank_app"
  have h: "tier high_app = ''HIGH_RISK''" and b: "tier blank_app = ''NO_RISK''"
    by (simp_all add: tier_def high_app_def blank_app_def analysis_def app_riskLevel_def or_str_def)
  have len: "length xs = 40"
    by (simp add: xs_def)
  have high: "length (filter (\<lambda>a. tier a = ''HIGH_RISK'') xs) = 23"
    by (simp add: xs_def h b)
  have n: "highRisk (calculateStatistics Math_log xs) = 23" for Math_log
    by (simp add: calculateStatistics_def Let_def foldl_count_app(1) counters0_def high)
  have t: "totalApps (calculateStatistics Math_log xs) = 40" for Math_log
    by (simp add: calculateStatistics_def Let_def len)
  have r: "Math_round (fl (fl (23 / 40) * 100)) = 57"
    by code_simp
  have p: "riskPercentage (calculateStatistics Math_log xs) = 57" for Math_log
    by (simp add: calculateStatistics_def Let_def foldl_count_app(1) counters0_def high len r)
  have e: "Math_round (23 / 40 * 100) = 58"
    by code_simp
  show ?thesis
    using n t p e unfolding xs_def by blast
qed

text \<open>
  C6, amended. \<open>totalApps\<close> is the number of apps and the four tier counts are the numbers
  of apps of each tier. \<open>riskPercentage\<close> is \<^verbatim>\<open>Math.round\<close> (half up) of the binary64
  product \<^verbatim>\<open>(highRisk / totalApps) * 100\<close>: up to \<open>2 ^ 40\<close> apps that is the exact percentage
  rounded half up, unless the exact percentage lies half way between two integers, where
  it is that rounding or one less. \<open>averagePermissions\<close> is \<^verbatim>\<open>Math.round\<close> of the binary64
  quotient of the sum of the sizes of the apps' permission sets by \<open>totalApps\<close>: up to
  \<open>2 ^ 26\<close> apps and an average below \<open>2 ^ 25\<close> that is the exact average rounded half up.
  Both are 0 when there is no app. The three apps of the scenario give 3, 1, 1, 1, 33
  and 1.
\<close>

theorem calculateStatistics_closed_form:
  "totalApps (calculateStatistics Math_log as) = length as
   \<and> highRisk (calculateStatistics Math_log as) = length (filter (\<lambda>a. app_riskLevel a = Some ''HIGH_RISK'') as)
   \<and> mediumRisk (calculateStatistics Math_log as) = length (filter (\<lambda>a. app_riskLevel a = Some ''MEDIUM_RISK'') as)
   \<and> lowRisk (calculateStatistics Math_log as) = length (filter (\<lambda>a. app_riskLevel a = Some ''LOW_RISK'') as)
   \<and> noRisk (calculateStatistics Math_log as)
       = length as - highRisk (calculateStatistics Math_log as) - mediumRisk (calculateStatistics Math_log as)
         - lowRisk (calculateStatistics Math_log as)
   \<and> riskPercentage (calculateStatistics Math_log as)
       = (if as = [] then 0
          else Math_round (fl (fl (of_nat (highRisk (calculateStatistics Math_log as)) / of_nat (length as)) * 100)))
   \<and> averagePermissions (calculateStatistics Math_log as)
       = (if as = [] then 0
          else Math_round (fl (of_nat (sum_list (map (\<lambda>a. card (set (or_empty (permissions a)))) as))
                               / of_nat (length as))))
   \<and> (\<forall>x. Math_round x = \<lfloor>x + 1 / 2\<rfloor>)
   \<and> (as \<noteq> [] \<and> length as \<le> 2 ^ 40 \<longrightarrow>
        ((200 * highRisk (calculateStatistics Math_log as) + length as) mod (2 * length as) \<noteq> 0 \<longrightarrow>
           riskPercentage (calculateStatistics Math_log as)
             = Math_round (100 * of_nat (highRisk (calculateStatistics Math_log as)) / of_nat (length as)))
        \<and> (riskPercentage (calculateStatistics Math_log as)
             = Math_round (100 * of_nat (highRisk (calculateStatistics Math_log as)) / of_nat (length as))
           \<or> riskPercentage (calculateStatistics Math_log as)
             = Math_round (100 * of_nat (highRisk (calculateStatistics Math_log as)) / of_nat (length as)) - 1))
   \<and> (as \<noteq> [] \<and> length as \<le> 2 ^ 26
        \<and> sum_list (map (\<lambda>a. card (set (or_empty (permissions a)))) as) < 2 ^ 25 * length as \<longrightarrow>
        averagePermissions (calculateStatistics Math_log as)
          = Math_round (of_nat (sum_list (map (\<lambda>a. card (set (or_empty (permissions a)))) as))
                        / of_nat (length as)))
   \<and> calculateStatistics Math_log [app_A, app_B, app_C]
       = \<lparr>totalApps = 3, highRisk = 1, mediumRisk = 1, lowRisk = 0, noRisk = 1,
          riskPercentage = 33, averagePermissions = 1, totalDataUsage = ''0 Bytes''\<rparr>"
proof -
  let ?h = "highRisk (calculateStatistics Math_log as)"
  let ?P = "sum_list (map (\<lambda>a. card (set (or_empty (permissions a)))) as)"
  have sum: "?h + mediumRisk (calculateStatistics Math_log as)
      + lowRisk (calculateStatistics Math_log as) + noRisk (calculateStatistics Math_log as) = length as"
    using stats_tiers_sum [where as = as] by (simp add: calculateStatistics_def Let_def)
  have tiers: "?h = length (filter (\<lambda>a. app_riskLevel a = Some ''HIGH_RISK'') as)"
    "mediumRisk (calculateStatistics Math_log as) = length (filter (\<lambda>a. app_riskLevel a = Some ''MEDIUM_RISK'') as)"
    "lowRisk (calculateStatistics Math_log as) = length (filter (\<lambda>a. app_riskLevel a = Some ''LOW_RISK'') as)"
    by (simp_all add: calculateStatistics_def Let_def foldl_count_app counters0_def tier_eq_iff)
  have perms: "n_permissions (foldl count_app counters0 as) = ?P"
    by (simp add: foldl_count_app counters0_def length_unique)
  have pct: "riskPercentage (calculateStatistics Math_log as)
       = (if as = [] then 0
          else Math_round (fl (fl (of_nat ?h / of_nat (length as)) * 100)))"
    by (simp add: calculateStatistics_def Let_def)
  have avg: "averagePermissions (calculateStatistics Math_log as)
       = (if as = [] then 0 else Math_round (fl (of_nat ?P / of_nat (length as))))"
    by (simp add: calculateStatistics_def Let_def perms)
  have scen: "calculateStatistics Math_log [app_A, app_B, app_C]
       = \<lparr>totalApps = 3, highRisk = 1, mediumRisk = 1, lowRisk = 0, noRisk = 1,
          riskPercentage = 33, averagePermissions = 1, totalDataUsage = ''0 Bytes''\<rparr>"
    by code_simp
  have tot: "totalApps (calculateStatistics Math_log as) = length as"
    by (simp add: calculateStatistics_def Let_def)
  have none: "noRisk (calculateStatistics Math_log as)
       = length as - ?h - mediumRisk (calculateStatistics Math_log as) - lowRisk (calculateStatistics Math_log as)"
    using sum by linarith
  have h_le: "?h \<le> length as" using sum by linarith
  have exact_pct:
    "((200 * ?h + length as) mod (2 * length as) \<noteq> 0 \<longrightarrow>
        riskPercentage (calculateStatistics Math_log as) = Math_round (100 * of_nat ?h / of_nat (length as)))
     \<and> (riskPercentage (calculateStatistics Math_log as) = Math_round (100 * of_nat ?h / of_nat (length as))
        \<or> riskPercentage (calculateStatistics Math_log as) = Math_round (100 * of_nat ?h / of_nat (length as)) - 1)"
    if "as \<noteq> []" "length as \<le> 2 ^ 40"
  proof -
    have n: "0 < int (length as)" "int (length as) \<le> 2 ^ 40"
      using that by simp_all
    have h: "0 \<le> int ?h" "int ?h \<le> int (length as)"
      using h_le by simp_all
    have "(200 * int ?h + int (length as)) mod (2 * int (length as))
        = int ((200 * ?h + length as) mod (2 * length as))"
      by (simp add: zmod_int)
    then have m: "((200 * int ?h + int (length as)) mod (2 * int (length as)) \<noteq> 0)
        = ((200 * ?h + length as) mod (2 * length as) \<noteq> 0)"
      by (simp only: of_nat_eq_0_iff)
    show ?thesis
      using percentage_rounding [OF n h] that(1) unfolding m by (simp add: pct)
  qed
  have exact_avg: "averagePermissions (calculateStatistics Math_log as)
      = Math_round (of_nat ?P / of_nat (length as))"
    if "as \<noteq> []" "length as \<le> 2 ^ 26" "?P < 2 ^ 25 * length as"
  proof -
    have n: "0 < int (length as)" "int (length as) \<le> 2 ^ 26"
      using that by simp_all
    have "int ?P < int (2 ^ 25 * length as)" using that(3) by (simp only: of_nat_less_iff)
    then have p: "0 \<le> int ?P" "int ?P < 2 ^ 25 * int (length as)" by simp_all
    show ?thesis
      using Math_round_fl_quotient [OF n p] that(1) by (simp add: avg)
  qed
  show ?thesis
    using tot tiers none pct avg scen exact_pct exact_avg by (simp add: Math_round_def)
qed

theorem calculateStatistics_closed_form_witness:
  "[app_A, app_B, app_C] \<noteq> [] \<and> length [app_A, app_B, app_C] \<le> 2 ^ 26
   \<and> sum_list (map (\<lambda>a. card (set (or_empty (permissions a)))) [app_A, app_B, app_C]) = 3
   \<and> highRisk (calculateStatistics sample_log [app_A, app_B, app_C]) = 1
   \<and> (200 * 1 + 3) mod (2 * 3) \<noteq> (0::nat)
   \<and> riskPercentage (calculateStatistics sample_log [app_A, app_B, app_C]) = Math_round (100 * 1 / 3)
   \<and> averagePermissions (calculateStatistics sample_log [app_A, app_B, app_C]) = Math_round (3 / 3)
   \<and> Math_round (100 * 1 / 3) = 33 \<and> Math_round (3 / 3) = 1"
proof -
  have P: "sum_list (map (\<lambda>a. card (set (or_empty (permissions a)))) [app_A, app_B, app_C]) = 3"
    by code_simp
  have r: "Math_round (100 * 1 / 3) = 33" "Math_round (3 / 3) = 1"
    by code_simp+
  show ?thesis
    using calculateStatistics_closed_form [where Math_log = sample_log and as = "[app_A, app_B, app_C]"] P r
    by simp
qed

subsection \<open>Byte Formatter\<close>

























subsection \<open>Data Usage Summarizer\<close>

text \<open>A sum of two byte counts is exact as long as it is below \<open>2 ^ 53\<close>.\<close>

lemma js_add_exact:
  assumes "0 \<le> a + b" "a + b < 2 ^ 53"
  shows "js_add a b = a + b"
proof (cases "a + b = 0")
  case True
  then have "(of_int a :: rat) + of_int b = 0"
    by (metis of_int_0 of_int_add)
  with True show ?thesis by (simp add: js_add_def fl_def)
next
  case False
  with assms have "fl (of_int (a + b) * pow2 0) = of_int (a + b) * pow2 0"
    by (intro fl_exact) simp_all
  then show ?thesis by (simp add: js_add_def pow2_0)
qed

lemma foldl_add_usage:
  "foldl add_usage t as =
        (foldl (\<lambda>t a. case dataUsage a of None \<Rightarrow> t
          | Some d \<Rightarrow> js_add t (case wifi d of None \<Rightarrow> 0 | Some n \<Rightarrow> n))
        (fst t) as, foldl (\<lambda>t a. case dataUsage a of None \<Rightarrow> t
          | Some d \<Rightarrow> js_add t (case mobile d of None \<Rightarrow> 0 | Some n \<Rightarrow> n)) (snd t) as)"
  by (induction as arbitrary: t) (auto simp: add_usage_def or_zero_def split: option.splits)

text \<open>
  A loop that adds a value for some of the elements and skips the others: while no value
  is negative and the exact sum stays below \<open>2 ^ 53\<close>, it computes the exact sum.
\<close>

lemma foldl_js_add_exact:
  fixes v :: "'a \<Rightarrow> int option"
  assumes "\<And>a x. a \<in> set as \<Longrightarrow> v a = Some x \<Longrightarrow> 0 \<le> x" "0 \<le> t"
    and "t
          + sum_list (map (\<lambda>a. case v a of None \<Rightarrow> 0 | Some x \<Rightarrow> x) as)
          < 2 ^ 53"
  shows "foldl (\<lambda>t a. case v a of None \<Rightarrow> t | Some x \<Rightarrow> js_add t x) t as
       = t
             + sum_list (map (\<lambda>a. case v a of None \<Rightarrow> 0 | Some x \<Rightarrow> x) as)"
  using assms
proof (induction as arbitrary: t)
  case Nil
  then show ?case by simp
next
  case (Cons a as)
  let ?w = "case v a of None \<Rightarrow> 0 | Some x \<Rightarrow> x"
  let ?rest = "sum_list (map (\<lambda>a. case v a of None \<Rightarrow> 0 | Some x \<Rightarrow> x) as)"
  have w0: "0 \<le> ?w"
    using Cons.prems(1) [of a] by (cases "v a") simp_all
  have rest: "0 \<le> ?rest"
  proof (rule sum_list_nonneg)
    fix y assume "y \<in> set (map (\<lambda>a. case v a of None \<Rightarrow> 0 | Some x \<Rightarrow> x) as)"
    then obtain b where b: "b \<in> set as" "y = (case v b of None \<Rightarrow> 0 | Some x \<Rightarrow> x)" by auto
    show "0 \<le> y"
      using Cons.prems(1) [of b] b by (cases "v b") simp_all
  qed
  have small: "t + ?w + ?rest < 2 ^ 53" using Cons.prems(3) by (simp add: add.assoc)
  have step: "(case v a of None \<Rightarrow> t | Some x \<Rightarrow> js_add t x) = t + ?w"
  proof (cases "v a")
    case None
    then show ?thesis by simp
  next
    case (Some x)
    have "js_add t x = t + x"
      using Cons.prems(2) w0 rest small Some by (intro js_add_exact) simp_all
    with Some show ?thesis by simp
  qed
  have "foldl (\<lambda>t a. case v a of None \<Rightarrow> t | Some x \<Rightarrow> js_add t x) (t + ?w) as = (t + ?w) + ?rest"
  proof (rule Cons.IH)
    show "0 \<le> x" if "b \<in> set as" "v b = Some x" for b x
      using Cons.prems(1) [of b x] that by simp
    show "0 \<le> t + ?w" using Cons.prems(2) w0 by simp
    show "t + ?w + ?rest < 2 ^ 53" by (rule small)
  qed
  then show ?case by (simp add: step add.assoc)
qed

lemma foldl_wifi_exact:
  fixes as :: "app list"
  assumes nn: "list_all (\<lambda>a. case dataUsage a of None \<Rightarrow> True
          | Some d \<Rightarrow> 0 \<le> (case wifi d of None \<Rightarrow> 0 | Some n \<Rightarrow> n)
            \<and> 0 \<le> (case mobile d of None \<Rightarrow> 0 | Some n \<Rightarrow> n)) as"
          and small: "sum_list (map (\<lambda>a. case dataUsage a of None \<Rightarrow> 0
          | Some d \<Rightarrow> (case wifi d of None \<Rightarrow> 0 | Some n \<Rightarrow> n)) as)
        < 2 ^ 53"
  shows "foldl (\<lambda>t a. case dataUsage a of None \<Rightarrow> t
          | Some d \<Rightarrow> js_add t (case wifi d of None \<Rightarrow> 0 | Some n \<Rightarrow> n)) 0 as
        = sum_list (map (\<lambda>a. case dataUsage a of None \<Rightarrow> 0
          | Some d \<Rightarrow> (case wifi d of None \<Rightarrow> 0 | Some n \<Rightarrow> n)) as)"
proof -
  define v where "v a = (case dataUsage a of None \<Rightarrow> None
     | Some d \<Rightarrow> Some (case wifi d of None \<Rightarrow> 0 | Some n \<Rightarrow> n))" for a :: app
  have f: "((\<lambda>t a. case dataUsage a of None \<Rightarrow> t
          | Some d \<Rightarrow> js_add t (case wifi d of None \<Rightarrow> 0 | Some n \<Rightarrow> n))
        :: int \<Rightarrow> app \<Rightarrow> int)
        = (\<lambda>t a. case v a of None \<Rightarrow> t | Some x \<Rightarrow> js_add t x)"
    by (intro ext) (simp add: v_def split: option.splits)
  have w: "((\<lambda>a. case dataUsage a of None \<Rightarrow> 0
          | Some d \<Rightarrow> (case wifi d of None \<Rightarrow> 0 | Some n \<Rightarrow> n))
        :: app \<Rightarrow> int)
        = (\<lambda>a. case v a of None \<Rightarrow> 0 | Some x \<Rightarrow> x)"
    by (intro ext) (simp add: v_def split: option.splits)
  have pos: "0 \<le> x" if "a \<in> set as" "v a = Some x" for a x
  proof (cases "dataUsage a")
    case None
    with that(2) show ?thesis by (simp add: v_def)
  next
    case (Some d)
    from nn that(1) have "case dataUsage a of None \<Rightarrow> True
            | Some d \<Rightarrow> 0 \<le> (case wifi d of None \<Rightarrow> 0 | Some n \<Rightarrow> n)
              \<and> 0 \<le> (case mobile d of None \<Rightarrow> 0 | Some n \<Rightarrow> n)"
      by (simp add: list_all_iff)
    with Some that(2) show ?thesis by (auto simp: v_def)
  qed
  show ?thesis
    unfolding f w using pos small by (intro foldl_js_add_exact [of as v 0, simplified]) (simp_all add: w)
qed

lemma foldl_mobile_exact:
  fixes as :: "app list"
  assumes nn: "list_all (\<lambda>a. case dataUsage a of None \<Rightarrow> True
          | Some d \<Rightarrow> 0 \<le> (case wifi d of None \<Rightarrow> 0 | Some n \<Rightarrow> n)
            \<and> 0 \<le> (case mobile d of None \<Rightarrow> 0 | Some n \<Rightarrow> n)) as"
          and small: "sum_list (map (\<lambda>a. case dataUsage a of None \<Rightarrow> 0
          | Some d \<Rightarrow> (case mobile d of None \<Rightarrow> 0 | Some n \<Rightarrow> n)) as)
        < 2 ^ 53"
  shows "foldl (\<lambda>t a. case dataUsage a of None \<Rightarrow> t
          | Some d \<Rightarrow> js_add t (case mobile d of None \<Rightarrow> 0 | Some n \<Rightarrow> n)) 0 as
        = sum_list (map (\<lambda>a. case dataUsage a of None \<Rightarrow> 0
          | Some d \<Rightarrow> (case mobile d of None \<Rightarrow> 0 | Some n \<Rightarrow> n)) as)"
proof -
  define v where "v a = (case dataUsage a of None \<Rightarrow> None
     | Some d \<Rightarrow> Some (case mobile d of None \<Rightarrow> 0 | Some n \<Rightarrow> n))" for a :: app
  have f: "((\<lambda>t a. case dataUsage a of None \<Rightarrow> t
          | Some d \<Rightarrow> js_add t (case mobile d of None \<Rightarrow> 0 | Some n \<Rightarrow> n))
        :: int \<Rightarrow> app \<Rightarrow> int)
        = (\<lambda>t a. case v a of None \<Rightarrow> t | Some x \<Rightarrow> js_add t x)"
    by (intro ext) (simp add: v_def split: option.splits)
  have w: "((\<lambda>a. case dataUsage a of None \<Rightarrow> 0
          | Some d \<Rightarrow> (case mobile d of None \<Rightarrow> 0 | Some n \<Rightarrow> n))
        :: app \<Rightarrow> int)
        = (\<lambda>a. case v a of None \<Rightarrow> 0 | Some x \<Rightarrow> x)"
    by (intro ext) (simp add: v_def split: option.splits)
  have pos: "0 \<le> x" if "a \<in> set as" "v a = Some x" for a x
  proof (cases "dataUsage a")
    case None
    with that(2) show ?thesis by (simp add: v_def)
  next
    case (Some d)
    from nn that(1) have "case dataUsage a of None \<Rightarrow> True
            | Some d \<Rightarrow> 0 \<le> (case wifi d of None \<Rightarrow> 0 | Some n \<Rightarrow> n)
              \<and> 0 \<le> (case mobile d of None \<Rightarrow> 0 | Some n \<Rightarrow> n)"
      by (simp add: list_all_iff)
    with Some that(2) show ?thesis by (auto simp: v_def)
  qed
  show ?thesis
    unfolding f w using pos small by (intro foldl_js_add_exact [of as v 0, simplified]) (simp_all add: w)
qed

lemma usage_sums_nonneg:
  fixes as :: "app list"
  assumes "list_all (\<lambda>a. case dataUsage a of None \<Rightarrow> True
          | Some d \<Rightarrow> 0 \<le> (case wifi d of None \<Rightarrow> 0 | Some n \<Rightarrow> n)
            \<and> 0 \<le> (case mobile d of None \<Rightarrow> 0 | Some n \<Rightarrow> n)) as"
  shows "0 \<le> sum_list (map (\<lambda>a. case dataUsage a of None \<Rightarrow> 0
          | Some d \<Rightarrow> (case wifi d of None \<Rightarrow> 0 | Some n \<Rightarrow> n)) as)"
        and "0 \<le> sum_list (map (\<lambda>a. case dataUsage a of None \<Rightarrow> 0
          | Some d \<Rightarrow> (case mobile d of None \<Rightarrow> 0 | Some n \<Rightarrow> n)) as)"
  using assms by (induction as) (auto split: option.splits)

lemma consumer_of_positive: "consumer_of a = Some c \<Longrightarrow> 0 < c_total c \<and> app_total a = Some (c_total c)"
  by (auto simp: consumer_of_def app_total_def split: option.splits if_splits)

lemma set_map_filter: "Some ` set (List.map_filter f xs) \<subseteq> f ` set xs"
  by (induction xs) (auto simp: List.map_filter_def)

text \<open>
  C8, as the claim states it, fails on large counts: the totals are sums of Numbers, and
  from \<open>2 ^ 53\<close> on a sum is rounded. An app with 9147936743096316 bytes over wifi and
  four apps with one byte each sum to 9147936743096320 bytes; the code keeps
  9147936743096316, each addition of 1 being rounded away, and prints another total.
\<close>

theorem totalWifi_rounds_beyond_2_53:
  "(\<forall>Math_log. totalWifi (summarizeDataUsage Math_log (usage_app 9147936743096316 # replicate 4 (usage_app 1)))
        = formatBytes Math_log 9147936743096316)
   \<and> sum_list (map (\<lambda>a. case dataUsage a of None \<Rightarrow> 0
           | Some d \<Rightarrow> (case wifi d of None \<Rightarrow> 0 | Some n \<Rightarrow> n))
        (usage_app 9147936743096316 # replicate 4 (usage_app 1))) = 9147936743096320
   \<and> totalWifi (summarizeDataUsage sample_log (usage_app 9147936743096316 # replicate 4 (usage_app 1)))
        = ''8.12 undefined''
   \<and> formatBytes sample_log 9147936743096320 = ''8.13 undefined''"
proof -
  have step: "js_add 9147936743096316 1 = 9147936743096316" by code_simp
  have start: "js_add 0 9147936743096316 = 9147936743096316" by code_simp
  have fold: "foldl add_usage (0, 0) (usage_app 9147936743096316 # replicate 4 (usage_app 1))
      = (9147936743096316, 0)"
  proof -
    have zero: "js_add 0 0 = 0" by code_simp
    have "replicate 4 (usage_app 1) = [usage_app 1, usage_app 1, usage_app 1, usage_app 1]"
      by (simp add: numeral_eq_Suc)
    then show ?thesis
      by (simp add: add_usage_def usage_app_def blank_app_def or_zero_def step start zero)
  qed
  have total: "totalWifi (summarizeDataUsage Math_log (usage_app 9147936743096316 # replicate 4 (usage_app 1)))
        = formatBytes Math_log 9147936743096316" for Math_log
    unfolding summarizeDataUsage_def Let_def fold by simp
  have sum: "sum_list (map (\<lambda>a. case dataUsage a of None \<Rightarrow> 0
          | Some d \<Rightarrow> (case wifi d of None \<Rightarrow> 0 | Some n \<Rightarrow> n))
        (usage_app 9147936743096316 # replicate 4 (usage_app 1))) = 9147936743096320"
    by (simp add: usage_app_def blank_app_def sum_list_replicate)
  have "formatBytes sample_log 9147936743096316 = ''8.12 undefined''"
    "formatBytes sample_log 9147936743096320 = ''8.13 undefined''"
    by code_simp+
  with total sum show ?thesis by simp
qed

text \<open>
  C8, amended. \<open>totalWifi\<close> and \<open>totalMobile\<close> are the formatted sums of \<^verbatim>\<open>dataUsage.wifi\<close>
  and \<^verbatim>\<open>dataUsage.mobile\<close> over all the apps that have a \<^verbatim>\<open>dataUsage\<close>, a missing value
  counting as 0, whatever the table of consumers keeps, and \<open>totalCombined\<close> is the
  formatted sum of the two sums: sums of Numbers, added in the order of input, each
  addition giving the exact sum rounded to binary64. When no value is negative and the
  two exact sums together stay below \<open>2 ^ 53\<close>, nothing is rounded and the three are the
  exact sums, formatted. \<open>topDataConsumers\<close> is the first 10 entries of a ranking that holds
  the descriptor of every input app with a \<^verbatim>\<open>dataUsage\<close> whose total is positive, and of no
  other, in order of non-increasing total, apps of equal total in their order of input.
  The script app (1024 bytes over wifi, 1024 mobile, 2048 in total), an app without
  \<^verbatim>\<open>dataUsage\<close> and an app with 512 bytes over wifi and no total give 1.5 KB, 1 KB and
  2.5 KB, and one consumer.
\<close>

theorem summarizeDataUsage_totals:
  "totalWifi (summarizeDataUsage Math_log as)
        = formatBytes Math_log
        (foldl (\<lambda>t a. case dataUsage a of None \<Rightarrow> t
          | Some d \<Rightarrow> js_add t (case wifi d of None \<Rightarrow> 0 | Some n \<Rightarrow> n)) 0 as)
   \<and> totalMobile (summarizeDataUsage Math_log as)
         = formatBytes Math_log
         (foldl (\<lambda>t a. case dataUsage a of None \<Rightarrow> t
           | Some d \<Rightarrow> js_add t (case mobile d of None \<Rightarrow> 0 | Some n \<Rightarrow> n)) 0 as)
   \<and> totalCombined (summarizeDataUsage Math_log as)
      = formatBytes Math_log (js_add
             (foldl (\<lambda>t a. case dataUsage a of None \<Rightarrow> t
               | Some d \<Rightarrow> js_add t (case wifi d of None \<Rightarrow> 0 | Some n \<Rightarrow> n)) 0 as)
             (foldl (\<lambda>t a. case dataUsage a of None \<Rightarrow> t
               | Some d \<Rightarrow> js_add t (case mobile d of None \<Rightarrow> 0 | Some n \<Rightarrow> n)) 0 as))
   \<and> (\<forall>a b. js_add a b = \<lfloor>fl (of_int a + of_int b)\<rfloor>)
   \<and> (\<forall>a b. 0 \<le> a + b \<and> a + b < 2 ^ 53 \<longrightarrow> js_add a b = a + b)
   \<and> (list_all (\<lambda>a. case dataUsage a of None \<Rightarrow> True
           | Some d \<Rightarrow> 0 \<le> (case wifi d of None \<Rightarrow> 0 | Some n \<Rightarrow> n)
             \<and> 0 \<le> (case mobile d of None \<Rightarrow> 0 | Some n \<Rightarrow> n)) as
         \<and> sum_list (map (\<lambda>a. case dataUsage a of None \<Rightarrow> 0
           | Some d \<Rightarrow> (case wifi d of None \<Rightarrow> 0 | Some n \<Rightarrow> n)) as)
         + sum_list (map (\<lambda>a. case dataUsage a of None \<Rightarrow> 0
           | Some d \<Rightarrow> (case mobile d of None \<Rightarrow> 0 | Some n \<Rightarrow> n)) as)
         < 2 ^ 53 \<longrightarrow>
        totalWifi (summarizeDataUsage Math_log as)
              = formatBytes Math_log
              (sum_list (map (\<lambda>a. case dataUsage a of None \<Rightarrow> 0
                | Some d \<Rightarrow> (case wifi d of None \<Rightarrow> 0 | Some n \<Rightarrow> n)) as))
        \<and> totalMobile (summarizeDataUsage Math_log as)
              = formatBytes Math_log
              (sum_list (map (\<lambda>a. case dataUsage a of None \<Rightarrow> 0
                | Some d \<Rightarrow> (case mobile d of None \<Rightarrow> 0 | Some n \<Rightarrow> n)) as))
        \<and> totalCombined (summarizeDataUsage Math_log as)
           = formatBytes Math_log
                  (sum_list (map (\<lambda>a. case dataUsage a of None \<Rightarrow> 0
                    | Some d \<Rightarrow> (case wifi d of None \<Rightarrow> 0 | Some n \<Rightarrow> n)) as)
                  + sum_list (map (\<lambda>a. case dataUsage a of None \<Rightarrow> 0
                    | Some d \<Rightarrow> (case mobile d of None \<Rightarrow> 0 | Some n \<Rightarrow> n)) as)))
   \<and> (\<exists>ranked.
        topDataConsumers (summarizeDataUsage Math_log as) = take 10 ranked
        \<and> mset ranked = mset (List.map_filter consumer_of as)
        \<and> sorted_wrt (\<lambda>a b. c_total b \<le> c_total a) ranked
        \<and> (\<forall>k. filter (\<lambda>c. c_total c = k) ranked
                 = filter (\<lambda>c. c_total c = k) (List.map_filter consumer_of as)))
   \<and> (\<forall>a. consumer_of a
          = (case dataUsage a of None \<Rightarrow> None
             | Some d \<Rightarrow>
                 (case total_bytes d of None \<Rightarrow> None
                  | Some t \<Rightarrow>
                      if 0 < t
                      then Some \<lparr>c_name = display_name a ''Unknown'', c_packageName = packageName a,
                             c_total = t,
                             c_wifi = (case wifi d of None \<Rightarrow> 0 | Some n \<Rightarrow> n),
                             c_mobile = (case mobile d of None \<Rightarrow> 0 | Some n \<Rightarrow> n)\<rparr>
                      else None)))
   \<and> length (topDataConsumers (summarizeDataUsage Math_log as)) \<le> 10
   \<and> (\<forall>c \<in> set (topDataConsumers (summarizeDataUsage Math_log as)).
        0 < c_total c
        \<and> (\<exists>a \<in> set as. \<exists>d. dataUsage a = Some d \<and> total_bytes d = Some (c_total c)))
   \<and> sorted_wrt (\<lambda>a b. c_total b \<le> c_total a) (topDataConsumers (summarizeDataUsage Math_log as))
   \<and> summarizeDataUsage sample_log [script_app, app_C, usage_app 512]
       = \<lparr>totalWifi = ''1.5 KB'', totalMobile = ''1 KB'', totalCombined = ''2.5 KB'',
          topDataConsumers = [\<lparr>c_name = ''<script>alert(1)</script>'', c_packageName = Some ''com.x'',
             c_total = 2048, c_wifi = 1024, c_mobile = 1024\<rparr>]\<rparr>"
proof -
  let ?all = "List.map_filter consumer_of as"
  let ?sorted = "Array_sort (\<lambda>a b. c_total b - c_total a) ?all"
  have top: "topDataConsumers (summarizeDataUsage Math_log as) = take 10 ?sorted"
    by (simp add: summarizeDataUsage_def Let_def)
  have sub: "set (take 10 ?sorted) \<subseteq> set ?all"
    using set_take_subset [of 10 ?sorted] by (simp add: set_Array_sort)
  have from_apps: "Some ` set (take 10 ?sorted) \<subseteq> consumer_of ` set as"
    using sub set_map_filter [of consumer_of as] by blast
  have pos: "0 < c_total c
      \<and> (\<exists>a \<in> set as. \<exists>d. dataUsage a = Some d \<and> total_bytes d = Some (c_total c))"
    if "c \<in> set (take 10 ?sorted)" for c
  proof -
    from that from_apps obtain a where a: "a \<in> set as" "consumer_of a = Some c" by force
    from a(2) have "0 < c_total c" "app_total a = Some (c_total c)"
      by (simp_all add: consumer_of_positive)
    moreover from this(2) obtain d where "dataUsage a = Some d" "total_bytes d = Some (c_total c)"
      by (auto simp: app_total_def split: option.splits)
    ultimately show ?thesis using a(1) by blast
  qed
  have srt: "sorted_wrt (\<lambda>a b. c_total b \<le> c_total a) ?sorted"
    by (rule sorted_Array_sort_desc)
  have ranking: "\<exists>ranked.
        topDataConsumers (summarizeDataUsage Math_log as) = take 10 ranked
        \<and> mset ranked = mset (List.map_filter consumer_of as)
        \<and> sorted_wrt (\<lambda>a b. c_total b \<le> c_total a) ranked
        \<and> (\<forall>k. filter (\<lambda>c. c_total c = k) ranked
                 = filter (\<lambda>c. c_total c = k) (List.map_filter consumer_of as))"
    using top srt mset_Array_sort [of "\<lambda>a b. c_total b - c_total a" ?all]
      stable_Array_sort_desc [of c_total _ ?all]
    by blast
  have cons: "\<forall>a. consumer_of a
          = (case dataUsage a of None \<Rightarrow> None
             | Some d \<Rightarrow>
                 (case total_bytes d of None \<Rightarrow> None
                  | Some t \<Rightarrow>
                      if 0 < t
                      then Some \<lparr>c_name = display_name a ''Unknown'', c_packageName = packageName a,
                             c_total = t,
                             c_wifi = (case wifi d of None \<Rightarrow> 0 | Some n \<Rightarrow> n),
                             c_mobile = (case mobile d of None \<Rightarrow> 0 | Some n \<Rightarrow> n)\<rparr>
                      else None))"
    by (simp add: consumer_of_def or_zero_def split: option.splits)
  have sums: "totalWifi (summarizeDataUsage Math_log as)
        = formatBytes Math_log
        (foldl (\<lambda>t a. case dataUsage a of None \<Rightarrow> t
          | Some d \<Rightarrow> js_add t (case wifi d of None \<Rightarrow> 0 | Some n \<Rightarrow> n)) 0 as)"
    "totalMobile (summarizeDataUsage Math_log as)
          = formatBytes Math_log
          (foldl (\<lambda>t a. case dataUsage a of None \<Rightarrow> t
            | Some d \<Rightarrow> js_add t (case mobile d of None \<Rightarrow> 0 | Some n \<Rightarrow> n)) 0 as)"
    "totalCombined (summarizeDataUsage Math_log as)
      = formatBytes Math_log (js_add
             (foldl (\<lambda>t a. case dataUsage a of None \<Rightarrow> t
               | Some d \<Rightarrow> js_add t (case wifi d of None \<Rightarrow> 0 | Some n \<Rightarrow> n)) 0 as)
             (foldl (\<lambda>t a. case dataUsage a of None \<Rightarrow> t
               | Some d \<Rightarrow> js_add t (case mobile d of None \<Rightarrow> 0 | Some n \<Rightarrow> n)) 0 as))"
    by (simp_all add: summarizeDataUsage_def Let_def foldl_add_usage)
  have add: "\<forall>a b. js_add a b = \<lfloor>fl (of_int a + of_int b)\<rfloor>"
    by (simp add: js_add_def)
  have add_exact: "\<forall>a b. 0 \<le> a + b \<and> a + b
        < 2 ^ 53 \<longrightarrow> js_add a b = a + b"
    by (simp add: js_add_exact)
  have exact: "totalWifi (summarizeDataUsage Math_log as)
        = formatBytes Math_log
        (sum_list (map (\<lambda>a. case dataUsage a of None \<Rightarrow> 0
          | Some d \<Rightarrow> (case wifi d of None \<Rightarrow> 0 | Some n \<Rightarrow> n)) as))
        \<and> totalMobile (summarizeDataUsage Math_log as)
              = formatBytes Math_log
              (sum_list (map (\<lambda>a. case dataUsage a of None \<Rightarrow> 0
                | Some d \<Rightarrow> (case mobile d of None \<Rightarrow> 0 | Some n \<Rightarrow> n)) as))
        \<and> totalCombined (summarizeDataUsage Math_log as)
           = formatBytes Math_log
                  (sum_list (map (\<lambda>a. case dataUsage a of None \<Rightarrow> 0
                    | Some d \<Rightarrow> (case wifi d of None \<Rightarrow> 0 | Some n \<Rightarrow> n)) as)
                  + sum_list (map (\<lambda>a. case dataUsage a of None \<Rightarrow> 0
                    | Some d \<Rightarrow> (case mobile d of None \<Rightarrow> 0 | Some n \<Rightarrow> n)) as))"
    if nn: "list_all (\<lambda>a. case dataUsage a of None \<Rightarrow> True
            | Some d \<Rightarrow> 0 \<le> (case wifi d of None \<Rightarrow> 0 | Some n \<Rightarrow> n)
              \<and> 0 \<le> (case mobile d of None \<Rightarrow> 0 | Some n \<Rightarrow> n)) as"
      and small: "sum_list (map (\<lambda>a. case dataUsage a of None \<Rightarrow> 0
              | Some d \<Rightarrow> (case wifi d of None \<Rightarrow> 0 | Some n \<Rightarrow> n)) as)
            + sum_list (map (\<lambda>a. case dataUsage a of None \<Rightarrow> 0
              | Some d \<Rightarrow> (case mobile d of None \<Rightarrow> 0 | Some n \<Rightarrow> n)) as)
            < 2 ^ 53"
  proof -
    have s0: "0 \<le> sum_list (map (\<lambda>a. case dataUsage a of None \<Rightarrow> 0
            | Some d \<Rightarrow> (case wifi d of None \<Rightarrow> 0 | Some n \<Rightarrow> n)) as)"
          "0 \<le> sum_list (map (\<lambda>a. case dataUsage a of None \<Rightarrow> 0
            | Some d \<Rightarrow> (case mobile d of None \<Rightarrow> 0 | Some n \<Rightarrow> n)) as)"
      by (rule usage_sums_nonneg [OF nn])+
    have w: "foldl (\<lambda>t a. case dataUsage a of None \<Rightarrow> t
            | Some d \<Rightarrow> js_add t (case wifi d of None \<Rightarrow> 0 | Some n \<Rightarrow> n)) 0 as
          = sum_list (map (\<lambda>a. case dataUsage a of None \<Rightarrow> 0
            | Some d \<Rightarrow> (case wifi d of None \<Rightarrow> 0 | Some n \<Rightarrow> n)) as)"
      using s0 small by (intro foldl_wifi_exact [OF nn]) simp
    have m: "foldl (\<lambda>t a. case dataUsage a of None \<Rightarrow> t
            | Some d \<Rightarrow> js_add t (case mobile d of None \<Rightarrow> 0 | Some n \<Rightarrow> n)) 0 as
          = sum_list (map (\<lambda>a. case dataUsage a of None \<Rightarrow> 0
            | Some d \<Rightarrow> (case mobile d of None \<Rightarrow> 0 | Some n \<Rightarrow> n)) as)"
      using s0 small by (intro foldl_mobile_exact [OF nn]) simp
    have "js_add
          (sum_list (map (\<lambda>a. case dataUsage a of None \<Rightarrow> 0
            | Some d \<Rightarrow> (case wifi d of None \<Rightarrow> 0 | Some n \<Rightarrow> n)) as))
          (sum_list (map (\<lambda>a. case dataUsage a of None \<Rightarrow> 0
            | Some d \<Rightarrow> (case mobile d of None \<Rightarrow> 0 | Some n \<Rightarrow> n)) as))
          = sum_list (map (\<lambda>a. case dataUsage a of None \<Rightarrow> 0
            | Some d \<Rightarrow> (case wifi d of None \<Rightarrow> 0 | Some n \<Rightarrow> n)) as)
          + sum_list (map (\<lambda>a. case dataUsage a of None \<Rightarrow> 0
            | Some d \<Rightarrow> (case mobile d of None \<Rightarrow> 0 | Some n \<Rightarrow> n)) as)"
      using s0 small by (intro js_add_exact) simp_all
    then show ?thesis by (simp add: sums w m)
  qed
  have scen: "summarizeDataUsage sample_log [script_app, app_C, usage_app 512]
       = \<lparr>totalWifi = ''1.5 KB'', totalMobile = ''1 KB'', totalCombined = ''2.5 KB'',
          topDataConsumers = [\<lparr>c_name = ''<script>alert(1)</script>'', c_packageName = Some ''com.x'',
             c_total = 2048, c_wifi = 1024, c_mobile = 1024\<rparr>]\<rparr>"
    by code_simp
  have len: "length (topDataConsumers (summarizeDataUsage Math_log as)) \<le> 10"
    by (simp add: top)
  have each: "\<forall>c \<in> set (topDataConsumers (summarizeDataUsage Math_log as)).
        0 < c_total c
        \<and> (\<exists>a \<in> set as. \<exists>d. dataUsage a = Some d \<and> total_bytes d = Some (c_total c))"
    using pos by (simp add: top)
  have srt10: "sorted_wrt (\<lambda>a b. c_total b \<le> c_total a) (topDataConsumers (summarizeDataUsage Math_log as))"
    unfolding top by (rule sorted_wrt_take [OF srt])
  show ?thesis
    apply (intro conjI)
    subgoal by (rule sums(1))
    subgoal by (rule sums(2))
    subgoal by (rule sums(3))
    subgoal by (rule add)
    subgoal by (rule add_exact)
    subgoal using exact by blast
    subgoal by (rule ranking)
    subgoal by (rule cons)
    subgoal by (rule len)
    subgoal by (rule each)
    subgoal by (rule srt10)
    subgoal by (rule scen)
    done
qed

theorem summarizeDataUsage_totals_witness:
  "list_all (\<lambda>a. case dataUsage a of None \<Rightarrow> True
          | Some d \<Rightarrow> 0 \<le> (case wifi d of None \<Rightarrow> 0 | Some n \<Rightarrow> n)
            \<and> 0 \<le> (case mobile d of None \<Rightarrow> 0 | Some n \<Rightarrow> n)) [script_app, app_C, usage_app 512]
   \<and> sum_list (map (\<lambda>a. case dataUsage a of None \<Rightarrow> 0
           | Some d \<Rightarrow> (case wifi d of None \<Rightarrow> 0 | Some n \<Rightarrow> n))
         [script_app, app_C, usage_app 512]) = 1536
   \<and> sum_list (map (\<lambda>a. case dataUsage a of None \<Rightarrow> 0
           | Some d \<Rightarrow> (case mobile d of None \<Rightarrow> 0 | Some n \<Rightarrow> n))
         [script_app, app_C, usage_app 512]) = 1024
   \<and> (1536::int) + 1024 < 2 ^ 53
   \<and> totalWifi (summarizeDataUsage sample_log [script_app, app_C, usage_app 512])
       = formatBytes sample_log 1536
   \<and> totalMobile (summarizeDataUsage sample_log [script_app, app_C, usage_app 512])
       = formatBytes sample_log 1024
   \<and> totalCombined (summarizeDataUsage sample_log [script_app, app_C, usage_app 512])
       = formatBytes sample_log (1536 + 1024)
   \<and> formatBytes sample_log 1536 = ''1.5 KB''
   \<and> formatBytes sample_log 1024 = ''1 KB''
   \<and> formatBytes sample_log (1536 + 1024) = ''2.5 KB''
   \<and> (\<exists>c. topDataConsumers (summarizeDataUsage sample_log [script_app, app_C, usage_app 512]) = [c]
          \<and> 0 < c_total c \<and> dataUsage script_app \<noteq> None \<and> app_total script_app = Some (c_total c))"
proof -
  let ?as = "[script_app, app_C, usage_app 512]"
  have nn: "list_all (\<lambda>a. case dataUsage a of None \<Rightarrow> True
          | Some d \<Rightarrow> 0 \<le> (case wifi d of None \<Rightarrow> 0 | Some n \<Rightarrow> n)
            \<and> 0 \<le> (case mobile d of None \<Rightarrow> 0 | Some n \<Rightarrow> n)) ?as"
    by (simp add: script_app_def app_C_def usage_app_def blank_app_def)
  have w: "sum_list (map (\<lambda>a. case dataUsage a of None \<Rightarrow> 0
          | Some d \<Rightarrow> (case wifi d of None \<Rightarrow> 0 | Some n \<Rightarrow> n)) ?as) = 1536"
    by (simp add: script_app_def app_C_def usage_app_def blank_app_def)
  have m: "sum_list (map (\<lambda>a. case dataUsage a of None \<Rightarrow> 0
          | Some d \<Rightarrow> (case mobile d of None \<Rightarrow> 0 | Some n \<Rightarrow> n)) ?as) = 1024"
    by (simp add: script_app_def app_C_def usage_app_def blank_app_def)
  have small: "sum_list (map (\<lambda>a. case dataUsage a of None \<Rightarrow> 0
          | Some d \<Rightarrow> (case wifi d of None \<Rightarrow> 0 | Some n \<Rightarrow> n)) ?as)
        + sum_list (map (\<lambda>a. case dataUsage a of None \<Rightarrow> 0
          | Some d \<Rightarrow> (case mobile d of None \<Rightarrow> 0 | Some n \<Rightarrow> n)) ?as)
        < 2 ^ 53"
    by (simp only: w m) simp
  note inst = summarizeDataUsage_totals [of sample_log ?as]
  have "list_all (\<lambda>a. case dataUsage a of None \<Rightarrow> True
          | Some d \<Rightarrow> 0 \<le> (case wifi d of None \<Rightarrow> 0 | Some n \<Rightarrow> n)
            \<and> 0 \<le> (case mobile d of None \<Rightarrow> 0 | Some n \<Rightarrow> n)) ?as
        \<and> sum_list (map (\<lambda>a. case dataUsage a of None \<Rightarrow> 0
          | Some d \<Rightarrow> (case wifi d of None \<Rightarrow> 0 | Some n \<Rightarrow> n)) ?as)
        + sum_list (map (\<lambda>a. case dataUsage a of None \<Rightarrow> 0
          | Some d \<Rightarrow> (case mobile d of None \<Rightarrow> 0 | Some n \<Rightarrow> n)) ?as)
        < 2 ^ 53 \<longrightarrow>
        totalWifi (summarizeDataUsage sample_log ?as)
              = formatBytes sample_log
              (sum_list (map (\<lambda>a. case dataUsage a of None \<Rightarrow> 0
                | Some d \<Rightarrow> (case wifi d of None \<Rightarrow> 0 | Some n \<Rightarrow> n)) ?as))
        \<and> totalMobile (summarizeDataUsage sample_log ?as)
              = formatBytes sample_log
              (sum_list (map (\<lambda>a. case dataUsage a of None \<Rightarrow> 0
                | Some d \<Rightarrow> (case mobile d of None \<Rightarrow> 0 | Some n \<Rightarrow> n)) ?as))
        \<and> totalCombined (summarizeDataUsage sample_log ?as)
           = formatBytes sample_log
                  (sum_list (map (\<lambda>a. case dataUsage a of None \<Rightarrow> 0
                    | Some d \<Rightarrow> (case wifi d of None \<Rightarrow> 0 | Some n \<Rightarrow> n)) ?as)
                  + sum_list (map (\<lambda>a. case dataUsage a of None \<Rightarrow> 0
                    | Some d \<Rightarrow> (case mobile d of None \<Rightarrow> 0 | Some n \<Rightarrow> n)) ?as))"
    using inst [THEN conjunct2, THEN conjunct2, THEN conjunct2, THEN conjunct2, THEN conjunct2]
    by (rule conjunct1)
  with nn small have "totalWifi (summarizeDataUsage sample_log ?as)
        = formatBytes sample_log
        (sum_list (map (\<lambda>a. case dataUsage a of None \<Rightarrow> 0
          | Some d \<Rightarrow> (case wifi d of None \<Rightarrow> 0 | Some n \<Rightarrow> n)) ?as))
        \<and> totalMobile (summarizeDataUsage sample_log ?as)
              = formatBytes sample_log
              (sum_list (map (\<lambda>a. case dataUsage a of None \<Rightarrow> 0
                | Some d \<Rightarrow> (case mobile d of None \<Rightarrow> 0 | Some n \<Rightarrow> n)) ?as))
        \<and> totalCombined (summarizeDataUsage sample_log ?as)
           = formatBytes sample_log
                  (sum_list (map (\<lambda>a. case dataUsage a of None \<Rightarrow> 0
                    | Some d \<Rightarrow> (case wifi d of None \<Rightarrow> 0 | Some n \<Rightarrow> n)) ?as)
                  + sum_list (map (\<lambda>a. case dataUsage a of None \<Rightarrow> 0
                    | Some d \<Rightarrow> (case mobile d of None \<Rightarrow> 0 | Some n \<Rightarrow> n)) ?as))"
    by blast
  then have totals: "totalWifi (summarizeDataUsage sample_log ?as) = formatBytes sample_log 1536"
    "totalMobile (summarizeDataUsage sample_log ?as) = formatBytes sample_log 1024"
    "totalCombined (summarizeDataUsage sample_log ?as) = formatBytes sample_log (1536 + 1024)"
    by (simp_all only: w m)
  have fmt: "formatBytes sample_log 1536 = ''1.5 KB''" "formatBytes sample_log 1024 = ''1 KB''"
    "formatBytes sample_log (1536 + 1024) = ''2.5 KB''"
    by code_simp+
  have top: "topDataConsumers (summarizeDataUsage sample_log ?as)
      = [\<lparr>c_name = ''<script>alert(1)</script>'', c_packageName = Some ''com.x'',
          c_total = 2048, c_wifi = 1024, c_mobile = 1024\<rparr>]"
    by code_simp
  have c: "\<exists>c. topDataConsumers (summarizeDataUsage sample_log ?as) = [c]
          \<and> 0 < c_total c \<and> dataUsage script_app \<noteq> None \<and> app_total script_app = Some (c_total c)"
    unfolding top by (simp add: script_app_def blank_app_def app_total_def)
  have "(1536::int) + 1024 < 2 ^ 53" by simp
  with nn w m totals fmt c show ?thesis by blast
qed

subsection \<open>Permission Analyzer: the table of counts\<close>

lemma push_new_old: "x \<in> set ys \<Longrightarrow> push_new ys x = ys"
  by (simp add: push_new_def)

lemma push_new_fresh: "x \<notin> set ys \<Longrightarrow> push_new ys x = ys @ [x]"
  by (simp add: push_new_def)

lemma unique_snoc: "unique (xs @ [x]) = push_new (unique xs) x"
  by (simp add: unique_def)

lemma foldl_push_new_unique: "foldl push_new acc (unique xs) = foldl push_new acc xs"
proof (induction xs rule: rev_induct)
  case Nil
  then show ?case by (simp add: unique_def)
next
  case (snoc x xs)
  show ?case
  proof (cases "x \<in> set xs")
    case True
    then have "x \<in> set (foldl push_new acc xs)" by (simp add: set_foldl_push_new)
    with True snoc show ?thesis by (simp add: unique_snoc push_new_old set_unique)
  next
    case False
    with snoc show ?thesis by (simp add: unique_snoc push_new_fresh set_unique)
  qed
qed

lemma foldl_push_new_concat_unique:
  "foldl push_new acc (concat (map unique xss)) = foldl push_new acc (concat xss)"
  by (induction xss arbitrary: acc) (simp_all add: foldl_push_new_unique)

lemma unique_concat_unique: "unique (concat (map unique xss)) = unique (concat xss)"
  by (simp add: unique_def foldl_push_new_concat_unique)

lemma count_list_distinct: "distinct xs \<Longrightarrow> count_list xs x = (if x \<in> set xs then 1 else 0)"
  by (induction xs) auto

lemma count_list_concat: "count_list (concat xss) x = sum_list (map (\<lambda>xs. count_list xs x) xss)"
  by (induction xss) simp_all

lemma sum_list_indicator: "sum_list (map (\<lambda>x. if P x then 1 else 0) xs) = length (filter P xs)"
  by (induction xs) simp_all

lemma count_list_apps:
  "count_list (concat (map (\<lambda>a. unique (or_empty (permissions a))) as)) p
     = length (filter (\<lambda>a. p \<in> set (or_empty (permissions a))) as)"
  by (simp add: count_list_concat comp_def count_list_distinct distinct_unique set_unique
      sum_list_indicator)

lemma assign_new:
  "x \<notin> set ks \<Longrightarrow> assign (map (\<lambda>k. (k, f k)) ks) x v = map (\<lambda>k. (k, f k)) ks @ [(x, v)]"
  by (induction ks) auto

lemma assign_old:
  "x \<in> set ks \<Longrightarrow> distinct ks \<Longrightarrow>
   assign (map (\<lambda>k. (k, f k)) ks) x v = map (\<lambda>k. (k, if k = x then v else f k)) ks"
  by (induction ks) auto

lemma map_of_table:
  "map_of (map (\<lambda>k. (k, f k)) ks) p = (if p \<in> set ks then Some (f p) else None)"
  by (induction ks) auto

text \<open>After the identifiers \<open>ks\<close> have been counted one by one, the table holds each of
  them once, in the order of first occurrence, with the number of its occurrences.\<close>

lemma foldl_count_permission:
  "foldl count_permission [] ks = map (\<lambda>k. (k, count_list ks k)) (unique ks)"
proof (induction ks rule: rev_induct)
  case Nil
  then show ?case by (simp add: unique_def)
next
  case (snoc x ks)
  let ?pc = "map (\<lambda>k. (k, count_list ks k)) (unique ks)"
  have step: "foldl count_permission [] (ks @ [x]) = count_permission ?pc x"
    using snoc by simp
  show ?case
  proof (cases "x \<in> set ks")
    case True
    then have "count_permission ?pc x
        = map (\<lambda>k. (k, if k = x then count_list ks x + 1 else count_list ks k)) (unique ks)"
      by (simp add: count_permission_def map_of_table set_unique assign_old distinct_unique)
    also have "\<dots> = map (\<lambda>k. (k, count_list (ks @ [x]) k)) (unique (ks @ [x]))"
      using True by (simp add: unique_snoc push_new_old set_unique)
    finally show ?thesis using step by simp
  next
    case False
    then have "count_permission ?pc x = ?pc @ [(x, 1)]"
      by (simp add: count_permission_def map_of_table set_unique assign_new)
    also have "\<dots> = map (\<lambda>k. (k, count_list (ks @ [x]) k)) (unique (ks @ [x]))"
      using False by (auto simp: unique_snoc push_new_fresh set_unique)
    finally show ?thesis using step by simp
  qed
qed

lemma foldl_foldl_concat:
  "foldl (\<lambda>s a. foldl f s (g a)) s as = foldl f s (concat (map g as))"
  by (induction as arbitrary: s) simp_all

text \<open>The table of a run that returns, in closed form.\<close>

lemma permissionCount_closed_form:
  assumes "analyzePermissions as = Inr pa"
  shows "permissionCount pa
     = map (\<lambda>p. (p, length (filter (\<lambda>a. p \<in> set (or_empty (permissions a))) as)))
         (unique (concat (map (\<lambda>a. or_empty (permissions a)) as)))"
proof -
  let ?ks = "concat (map (\<lambda>a. unique (or_empty (permissions a))) as)"
  have "permissionCount pa = foldl count_permission [] ?ks"
    using analyzePermissions_count(1) [OF assms] by (simp add: foldl_foldl_concat)
  also have "\<dots> = map (\<lambda>k. (k, count_list ?ks k)) (unique ?ks)"
    by (rule foldl_count_permission)
  also have "unique ?ks = unique (concat (map (\<lambda>a. or_empty (permissions a)) as))"
    using unique_concat_unique [of "map (\<lambda>a. or_empty (permissions a)) as"]
    by (simp add: comp_def)
  finally show ?thesis by (simp add: count_list_apps)
qed

lemma map_insort_key: "map f (insort_key (\<lambda>x. g (f x)) x xs) = insort_key g (f x) (map f xs)"
  by (induction xs) simp_all

lemma map_sort_key: "map f (sort_key (\<lambda>x. g (f x)) xs) = sort_key g (map f xs)"
  by (induction xs) (simp_all add: map_insort_key)

lemma mset_Object_entries: "mset (Object_entries obj) = mset obj"
  by (simp add: Object_entries_def)

lemma keys_Object_entries:
  "map fst (Object_entries obj)
     = sort_key index_value (filter is_array_index (map fst obj))
       @ filter (\<lambda>k. \<not> is_array_index k) (map fst obj)"
  by (simp add: Object_entries_def map_sort_key filter_map comp_def)

lemma Object_entries_plain:
  "list_all (\<lambda>k. \<not> is_array_index k) (map fst obj) \<Longrightarrow> Object_entries obj = obj"
  by (simp add: Object_entries_def list_all_iff filter_empty_conv)

text \<open>
  C7, as the claim states it, fails on the order of ties. An app lists \<^verbatim>\<open>CAMERA\<close> and
  then \<^verbatim>\<open>7\<close>: both are counted once, \<^verbatim>\<open>CAMERA\<close> is met first, and \<open>mostCommon\<close> starts
  with \<^verbatim>\<open>7\<close>, because \<^verbatim>\<open>Object.entries\<close> lists an array index before the other keys.
\<close>

theorem mostCommon_index_key_first:
  "analyzePermissions [index_app]
     = Inr \<lparr>permissionCount = [(''CAMERA'', 1), (''7'', 1)],
            mostCommon = [(''7'', 1), (''CAMERA'', 1)],
            highRiskPermissions = 0, mediumRiskPermissions = 0, lowRiskPermissions = 0\<rparr>
   \<and> unique (concat (map (\<lambda>a. or_empty (permissions a)) [index_app])) = [''CAMERA'', ''7'']"
  by code_simp

text \<open>
  C7, amended. For identifiers that are not names inherited from \<^verbatim>\<open>Object.prototype\<close>, and
  for a run that returns: the count of an identifier is the number of apps whose
  permission list holds it, however often the list repeats it, and an identifier that no
  app lists has no count; \<open>mostCommon\<close> is the first 10 of the entries of the table in
  order of non-increasing count, entries of equal count keeping the order in which
  \<^verbatim>\<open>Object.entries\<close> lists them: the identifiers that are array indices first, in
  ascending numeric order, then the others in the order in which they are first met. When
  no identifier is an array index that is the order of first encounter.
\<close>

theorem analyzePermissions_prevalence:
  assumes "analyzePermissions as = Inr pa" and "plain_permissions as"
  shows "map_of (permissionCount pa) p
       = (if (\<exists>a \<in> set as. p \<in> set (or_empty (permissions a)))
          then Some (length (filter (\<lambda>a. p \<in> set (or_empty (permissions a))) as)) else None)
     \<and> (\<exists>ranked. mostCommon pa = take 10 ranked
           \<and> mset ranked = mset (permissionCount pa)
           \<and> sorted_wrt (\<lambda>x y. snd y \<le> snd x) ranked
           \<and> (\<forall>c. filter (\<lambda>e. snd e = c) ranked
                    = filter (\<lambda>e. snd e = c) (Object_entries (permissionCount pa))))
     \<and> map fst (Object_entries (permissionCount pa))
       = sort_key index_value
           (filter is_array_index (unique (concat (map (\<lambda>a. or_empty (permissions a)) as))))
         @ filter (\<lambda>k. \<not> is_array_index k) (unique (concat (map (\<lambda>a. or_empty (permissions a)) as)))
     \<and> (list_all (\<lambda>k. \<not> is_array_index k) (concat (map (\<lambda>a. or_empty (permissions a)) as))
          \<longrightarrow> map fst (Object_entries (permissionCount pa))
              = unique (concat (map (\<lambda>a. or_empty (permissions a)) as)))"
proof -
  let ?K = "unique (concat (map (\<lambda>a. or_empty (permissions a)) as))"
  let ?n = "\<lambda>p. length (filter (\<lambda>a. p \<in> set (or_empty (permissions a))) as)"
  have pc: "permissionCount pa = map (\<lambda>p. (p, ?n p)) ?K"
    by (rule permissionCount_closed_form [OF assms(1)])
  have keys: "map fst (permissionCount pa) = ?K"
    by (simp add: pc comp_def)
  have count: "map_of (permissionCount pa) p
       = (if (\<exists>a \<in> set as. p \<in> set (or_empty (permissions a))) then Some (?n p) else None)"
    by (auto simp: pc map_of_table set_unique)
  let ?ranked = "Array_sort (\<lambda>a b. int (snd b) - int (snd a)) (Object_entries (permissionCount pa))"
  have mc: "mostCommon pa = take 10 ?ranked"
    by (rule analyzePermissions_count(2) [OF assms(1)])
  have perm: "mset ?ranked = mset (permissionCount pa)"
    by (simp add: mset_Array_sort mset_Object_entries)
  have srt: "sorted_wrt (\<lambda>x y. snd y \<le> snd x) ?ranked"
    using sorted_Array_sort_desc [of "\<lambda>e. int (snd e)" "Object_entries (permissionCount pa)"] by simp
  have stable: "filter (\<lambda>e. snd e = c) ?ranked
      = filter (\<lambda>e. snd e = c) (Object_entries (permissionCount pa))" for c
    using stable_Array_sort_desc [of "\<lambda>e. int (snd e)" "int c" "Object_entries (permissionCount pa)"]
    by simp
  have order: "map fst (Object_entries (permissionCount pa))
       = sort_key index_value (filter is_array_index ?K) @ filter (\<lambda>k. \<not> is_array_index k) ?K"
    by (simp add: keys_Object_entries keys)
  have plain: "map fst (Object_entries (permissionCount pa)) = ?K"
    if "list_all (\<lambda>k. \<not> is_array_index k) (concat (map (\<lambda>a. or_empty (permissions a)) as))"
  proof -
    from that have "list_all (\<lambda>k. \<not> is_array_index k) (map fst (permissionCount pa))"
      unfolding keys list_all_iff set_unique by simp
    then show ?thesis
      by (simp add: Object_entries_plain keys)
  qed
  from count mc perm srt stable order plain show ?thesis by blast
qed

theorem analyzePermissions_prevalence_witness:
  "plain_permissions [app_A, app_B, app_C]
   \<and> (\<exists>pa. analyzePermissions [app_A, app_B, app_C] = Inr pa
        \<and> map_of (permissionCount pa) ''CAMERA'' = Some 1
        \<and> map_of (permissionCount pa) ''INTERNET'' = None
        \<and> map fst (Object_entries (permissionCount pa)) = [''CAMERA'', ''LOCATION'', ''STORAGE''])"
proof -
  have plain: "plain_permissions [app_A, app_B, app_C]"
    by code_simp
  have ok: "list_all (\<lambda>a. list_all known_level (app_factors a)) [app_A, app_B, app_C]"
    by (simp add: app_A_def app_B_def app_C_def blank_app_def analysis_def app_factors_def or_empty_def)
  then obtain pa where pa: "analyzePermissions [app_A, app_B, app_C] = Inr pa"
    using forEach_analyze_known [OF ok, of "[]" "\<lparr>HIGH = [], MEDIUM = [], LOW = []\<rparr>"]
    by (auto simp: analyzePermissions_def)
  have perms: "concat (map (\<lambda>a. or_empty (permissions a)) [app_A, app_B, app_C])
      = [''CAMERA'', ''CAMERA'', ''LOCATION'', ''STORAGE'']"
    by (simp add: app_A_def app_B_def app_C_def blank_app_def or_empty_def)
  have no_index: "list_all (\<lambda>k. \<not> is_array_index k) [''CAMERA'', ''CAMERA'', ''LOCATION'', ''STORAGE'']"
    by code_simp
  have uniq: "unique [''CAMERA'', ''CAMERA'', ''LOCATION'', ''STORAGE''] = [''CAMERA'', ''LOCATION'', ''STORAGE'']"
    by code_simp
  have mem: "length (filter (\<lambda>a. ''CAMERA'' \<in> set (or_empty (permissions a))) [app_A, app_B, app_C]) = 1"
    "\<not> (\<exists>a \<in> set [app_A, app_B, app_C]. ''INTERNET'' \<in> set (or_empty (permissions a)))"
    "\<exists>a \<in> set [app_A, app_B, app_C]. ''CAMERA'' \<in> set (or_empty (permissions a))"
    by (simp_all add: app_A_def app_B_def app_C_def blank_app_def or_empty_def)
  show ?thesis
    using analyzePermissions_prevalence [OF pa plain, of "''CAMERA''"]
      analyzePermissions_prevalence [OF pa plain, of "''INTERNET''"]
      plain pa mem no_index
    unfolding perms uniq by auto
qed

end
